theory Spec2Isabelle
  imports Complex_Main
begin

section \<open>Strings\<close>

text \<open>
  Python strings are modelled as \<open>string\<close>. \<open>lower\<close> and \<open>upper\<close> are
  \<^verbatim>\<open>str.lower()\<close> and \<^verbatim>\<open>str.upper()\<close> on ASCII letters; every other
  character is left as it is. \<open>py_in a b\<close> is the substring test \<^verbatim>\<open>a in b\<close>.
\<close>

definition lower_char :: "char \<Rightarrow> char" where
  "lower_char c =
     (if 65 \<le> (of_char c :: nat) \<and> (of_char c :: nat) \<le> 90
      then char_of ((of_char c :: nat) + 32) else c)"

definition upper_char :: "char \<Rightarrow> char" where
  "upper_char c =
     (if 97 \<le> (of_char c :: nat) \<and> (of_char c :: nat) \<le> 122
      then char_of ((of_char c :: nat) - 32) else c)"

definition lower :: "string \<Rightarrow> string" where
  "lower s = map lower_char s"

definition upper :: "string \<Rightarrow> string" where
  "upper s = map upper_char s"

fun startswith :: "string \<Rightarrow> string \<Rightarrow> bool" where
  "startswith s [] = True"
| "startswith [] (p # ps) = False"
| "startswith (c # cs) (p # ps) = (c = p \<and> startswith cs ps)"

fun py_in :: "string \<Rightarrow> string \<Rightarrow> bool" where
  "py_in a [] = (a = [])"
| "py_in a (c # cs) = (startswith (c # cs) a \<or> py_in a cs)"

fun join :: "string \<Rightarrow> string list \<Rightarrow> string" where
  "join sep [] = []"
| "join sep [x] = x"
| "join sep (x # y # ys) = x @ sep @ join sep (y # ys)"

text \<open>
  A value that can stand where the source expects a string: what \<^verbatim>\<open>json.loads\<close> yields
  for a JSON string, null, boolean or number, or Python's \<^verbatim>\<open>None\<close> default. \<open>truthy\<close>
  is Python's truth value of it. A JSON array, which SQLite cannot bind as a parameter, is left
  out.
\<close>

datatype py_value = PyNone | PyBool bool | PyNum real | PyStr string

fun truthy :: "py_value \<Rightarrow> bool" where
  "truthy PyNone = False"
| "truthy (PyBool b) = b"
| "truthy (PyNum r) = (r \<noteq> 0)"
| "truthy (PyStr s) = (s \<noteq> [])"


section \<open>The database (database.py)\<close>

text \<open>
  The SQLite tables as data. A calendar date is an ISO string. The source reads two clocks:
  \<^verbatim>\<open>date.today().isoformat()\<close>, the local date, in every query and in the recipient
  counters, and SQLite's \<^verbatim>\<open>CURRENT_TIMESTAMP\<close>, which is UTC, as the default of the
  \<^verbatim>\<open>timestamp\<close> columns. An operation that reads the first takes it as its argument
  \<open>today\<close>; an operation that inserts a timestamped row takes the UTC date of the
  insertion as its argument \<open>utc\<close>. A row of \<^verbatim>\<open>engagement_log\<close> keeps the date of its
  \<^verbatim>\<open>timestamp\<close> column (\<^verbatim>\<open>DATE(timestamp)\<close> is all the source ever reads of it).
  \<^verbatim>\<open>action_type\<close> is one of the three strings \<^verbatim>\<open>'like'\<close>, \<^verbatim>\<open>'comment'\<close>,
  \<^verbatim>\<open>'share'\<close>.
\<close>

type_synonym date = string

datatype action_kind = Like | Comment | Share

record engagement =
  reel_id :: string
  action_type :: action_kind
  timestamp :: date
  friend_username :: "string option"
  comment_text :: py_value
  success :: bool
  error_message :: "string option"

record reel_row =
  row_timestamp :: date
  reel_code :: string
  username :: string
  caption :: string
  humor_score :: real
  humor_category :: string
  humor_explanation :: string
  transcript :: string
  action_taken :: string
  thumbnail_url :: "string option"

text \<open>
  \<^verbatim>\<open>reels_analyzed\<close> has a unique \<^verbatim>\<open>reel_id\<close> and is written by INSERT OR REPLACE: a map
  from the identifier. \<^verbatim>\<open>engagement_log\<close> is append-only: a list, oldest row first.
  \<^verbatim>\<open>friend_shares\<close> is unique in (friend_username, date): a map from the pair to
  \<^verbatim>\<open>share_count\<close>.
\<close>

record database =
  reels_analyzed :: "string \<rightharpoonup> reel_row"
  engagement_log :: "engagement list"
  friend_shares :: "string \<times> date \<rightharpoonup> int"

definition reel_already_analyzed :: "database \<Rightarrow> string \<Rightarrow> bool" where
  "reel_already_analyzed db rid = (reels_analyzed db rid \<noteq> None)"

definition save_reel_analysis :: "database \<Rightarrow> string \<Rightarrow> reel_row \<Rightarrow> database" where
  "save_reel_analysis db rid row = db\<lparr>reels_analyzed := (reels_analyzed db)(rid \<mapsto> row)\<rparr>"

definition log_engagement ::
  "database \<Rightarrow> date \<Rightarrow> string \<Rightarrow> action_kind \<Rightarrow> string option \<Rightarrow> py_value \<Rightarrow> bool
     \<Rightarrow> string option \<Rightarrow> database" where
  "log_engagement db utc rid kind friend text ok err =
     db\<lparr>engagement_log := engagement_log db @
        [\<lparr>reel_id = rid, action_type = kind, timestamp = utc, friend_username = friend,
          comment_text = text, success = ok, error_message = err\<rparr>]\<rparr>"

text \<open>
  \<^verbatim>\<open>SELECT COUNT(*) FROM engagement_log WHERE action_type = k AND DATE(timestamp) = today
  AND success = 1\<close>
\<close>

definition count_today :: "database \<Rightarrow> action_kind \<Rightarrow> date \<Rightarrow> int" where
  "count_today db kind today =
     int (length (filter (\<lambda>e. action_type e = kind \<and> timestamp e = today \<and> success e)
                         (engagement_log db)))"

record counts =
  likes :: int
  comments :: int
  shares :: int

definition get_daily_engagement_counts :: "database \<Rightarrow> date \<Rightarrow> counts" where
  "get_daily_engagement_counts db today =
     \<lparr>likes = count_today db Like today,
      comments = count_today db Comment today,
      shares = count_today db Share today\<rparr>"

definition get_friend_share_count_today :: "database \<Rightarrow> date \<Rightarrow> string \<Rightarrow> int" where
  "get_friend_share_count_today db today friend =
     (case friend_shares db (friend, today) of None \<Rightarrow> 0 | Some c \<Rightarrow> c)"

definition increment_friend_share_count :: "database \<Rightarrow> date \<Rightarrow> string \<Rightarrow> database" where
  "increment_friend_share_count db today friend =
     db\<lparr>friend_shares := (friend_shares db)((friend, today) \<mapsto>
          (case friend_shares db (friend, today) of None \<Rightarrow> 1 | Some c \<Rightarrow> c + 1))\<rparr>"


section \<open>The platform client (instagram_client.py)\<close>

text \<open>
  The three action methods are opaque: each call returns a boolean or raises. The model
  takes their outcomes as functions of the arguments and lists the calls that were made.
\<close>

datatype outcome = Returned bool | Raised string

record instagram_client =
  like_media :: "string \<Rightarrow> outcome"
  comment_media :: "string \<Rightarrow> py_value \<Rightarrow> outcome"
  share_media_to_user :: "string \<Rightarrow> string \<Rightarrow> string \<Rightarrow> outcome"

datatype platform_call =
  LikeCall string
| CommentCall string py_value
| ShareCall string string string


section \<open>The engager (engager.py)\<close>

record friend_profile =
  friend_name :: string
  interests :: "string list"
  friend_max_shares_per_day :: int

definition FriendProfile :: "string \<Rightarrow> string list \<Rightarrow> int \<Rightarrow> friend_profile" where
  "FriendProfile name ins cap =
     \<lparr>friend_name = name, interests = map lower ins, friend_max_shares_per_day = cap\<rparr>"

definition matches_category :: "friend_profile \<Rightarrow> string \<Rightarrow> bool" where
  "matches_category f category =
     (let category_lower = lower category
      in list_ex (\<lambda>interest. py_in interest category_lower \<or> py_in category_lower interest)
                 (interests f))"

record engager =
  instagram :: instagram_client
  dry_run :: bool
  friends :: "friend_profile list"
  humor_threshold :: real
  comment_threshold :: real
  max_likes_per_day :: int
  max_comments_per_day :: int
  max_shares_per_day :: int

text \<open>
  \<^verbatim>\<open>_sync_friends_to_db\<close>: with an empty friend list it returns at once; otherwise
  \<^verbatim>\<open>DELETE FROM friend_shares WHERE friend_username NOT IN (...)\<close>.
\<close>

definition sync_friends_to_db :: "friend_profile list \<Rightarrow> database \<Rightarrow> database" where
  "sync_friends_to_db fs db =
     (let current_usernames = map friend_name fs
      in if current_usernames = [] then db
         else db\<lparr>friend_shares :=
                (\<lambda>k. if fst k \<in> set current_usernames then friend_shares db k else None)\<rparr>)"

definition can_like :: "engager \<Rightarrow> date \<Rightarrow> database \<Rightarrow> bool" where
  "can_like eng today db =
     (likes (get_daily_engagement_counts db today) < max_likes_per_day eng)"

definition can_comment :: "engager \<Rightarrow> date \<Rightarrow> database \<Rightarrow> bool" where
  "can_comment eng today db =
     (comments (get_daily_engagement_counts db today) < max_comments_per_day eng)"

definition can_share :: "engager \<Rightarrow> date \<Rightarrow> database \<Rightarrow> bool" where
  "can_share eng today db =
     (shares (get_daily_engagement_counts db today) < max_shares_per_day eng)"

definition can_share_to_friend :: "date \<Rightarrow> database \<Rightarrow> friend_profile \<Rightarrow> bool" where
  "can_share_to_friend today db f =
     (get_friend_share_count_today db today (friend_name f) < friend_max_shares_per_day f)"

text \<open>
  The three executors return the success flag, the database after the write and the
  platform calls they made. In dry-run mode no call is made and the row is written with
  success; otherwise the row carries what the call returned, or failure and the message
  of the exception it raised.
\<close>

definition do_like ::
  "engager \<Rightarrow> date \<Rightarrow> string \<Rightarrow> database \<Rightarrow> bool \<times> database \<times> platform_call list" where
  "do_like eng utc rid db =
     (if dry_run eng then (True, log_engagement db utc rid Like None PyNone True None, [])
      else case like_media (instagram eng) rid of
             Returned ok \<Rightarrow>
               (ok, log_engagement db utc rid Like None PyNone ok None, [LikeCall rid])
           | Raised e \<Rightarrow>
               (False, log_engagement db utc rid Like None PyNone False (Some e),
                [LikeCall rid]))"

definition do_comment ::
  "engager \<Rightarrow> date \<Rightarrow> string \<Rightarrow> py_value \<Rightarrow> database
     \<Rightarrow> bool \<times> database \<times> platform_call list" where
  "do_comment eng utc rid text db =
     (if dry_run eng
      then (True, log_engagement db utc rid Comment None text True None, [])
      else case comment_media (instagram eng) rid text of
             Returned ok \<Rightarrow>
               (ok, log_engagement db utc rid Comment None text ok None,
                [CommentCall rid text])
           | Raised e \<Rightarrow>
               (False, log_engagement db utc rid Comment None text False (Some e),
                [CommentCall rid text]))"

definition do_share ::
  "engager \<Rightarrow> date \<Rightarrow> date \<Rightarrow> string \<Rightarrow> friend_profile \<Rightarrow> string \<Rightarrow> database
     \<Rightarrow> bool \<times> database \<times> platform_call list" where
  "do_share eng today utc rid f code db =
     (if dry_run eng
      then (True,
            increment_friend_share_count
              (log_engagement db utc rid Share (Some (friend_name f)) PyNone True None)
              today (friend_name f),
            [])
      else case share_media_to_user (instagram eng) rid (friend_name f) code of
             Returned ok \<Rightarrow>
               (ok,
                (let db' = log_engagement db utc rid Share (Some (friend_name f)) PyNone ok None
                 in if ok then increment_friend_share_count db' today (friend_name f) else db'),
                [ShareCall rid (friend_name f) code])
           | Raised e \<Rightarrow>
               (False,
                log_engagement db utc rid Share (Some (friend_name f)) PyNone False (Some e),
                [ShareCall rid (friend_name f) code]))"

definition find_matching_friends :: "engager \<Rightarrow> string \<Rightarrow> friend_profile list" where
  "find_matching_friends eng category = filter (\<lambda>f. matches_category f category) (friends eng)"

text \<open>
  \<^verbatim>\<open>process_engagement\<close> runs three blocks in a row; each is a definition here, returning
  the actions it appended, the database and the platform calls. \<open>share_loop\<close> is the
  \<^verbatim>\<open>for friend in matching_friends\<close> loop, whose \<^verbatim>\<open>break\<close> sits under \<^verbatim>\<open>if success\<close>.
\<close>

definition like_decision ::
  "engager \<Rightarrow> date \<Rightarrow> date \<Rightarrow> string \<Rightarrow> real \<Rightarrow> database
     \<Rightarrow> string list \<times> database \<times> platform_call list" where
  "like_decision eng today utc rid score db =
     (if score \<ge> humor_threshold eng then
        (if can_like eng today db then
           (case do_like eng utc rid db of
              (ok, db', calls) \<Rightarrow> ((if ok then [''like''] else []), db', calls))
         else ([], db, []))
      else ([], db, []))"

definition comment_decision ::
  "engager \<Rightarrow> date \<Rightarrow> date \<Rightarrow> string \<Rightarrow> real \<Rightarrow> py_value \<Rightarrow> database
     \<Rightarrow> string list \<times> database \<times> platform_call list" where
  "comment_decision eng today utc rid score suggested_comment db =
     (if score \<ge> comment_threshold eng \<and> truthy suggested_comment then
        (if can_comment eng today db then
           (case do_comment eng utc rid suggested_comment db of
              (ok, db', calls) \<Rightarrow> ((if ok then [''comment''] else []), db', calls))
         else ([], db, []))
      else ([], db, []))"

fun share_loop ::
  "engager \<Rightarrow> date \<Rightarrow> date \<Rightarrow> string \<Rightarrow> string \<Rightarrow> friend_profile list \<Rightarrow> database
     \<Rightarrow> string list \<times> database \<times> platform_call list" where
  "share_loop eng today utc rid code [] db = ([], db, [])"
| "share_loop eng today utc rid code (f # fs) db =
     (if can_share_to_friend today db f then
        (case do_share eng today utc rid f code db of
           (ok, db', calls) \<Rightarrow>
             (if ok then ([''share:'' @ friend_name f], db', calls)
              else (case share_loop eng today utc rid code fs db' of
                      (actions, db'', calls') \<Rightarrow> (actions, db'', calls @ calls'))))
      else share_loop eng today utc rid code fs db)"

definition share_decision ::
  "engager \<Rightarrow> date \<Rightarrow> date \<Rightarrow> string \<Rightarrow> string \<Rightarrow> string \<Rightarrow> database
     \<Rightarrow> string list \<times> database \<times> platform_call list" where
  "share_decision eng today utc rid category code db =
     (if can_share eng today db
      then share_loop eng today utc rid code (find_matching_friends eng category) db
      else ([], db, []))"

definition process_engagement ::
  "engager \<Rightarrow> date \<Rightarrow> date \<Rightarrow> string \<Rightarrow> real \<Rightarrow> string \<Rightarrow> py_value \<Rightarrow> string \<Rightarrow> database
     \<Rightarrow> string list \<times> database \<times> platform_call list" where
  "process_engagement eng today utc rid score category suggested_comment code db =
     (case like_decision eng today utc rid score db of
        (a1, db1, c1) \<Rightarrow>
          (case comment_decision eng today utc rid score suggested_comment db1 of
             (a2, db2, c2) \<Rightarrow>
               (case share_decision eng today utc rid category code db2 of
                  (a3, db3, c3) \<Rightarrow> (a1 @ a2 @ a3, db3, c1 @ c2 @ c3))))"


section \<open>The content analyzer (analyzer.py)\<close>

text \<open>
  \<^verbatim>\<open>analyze_reel\<close> depends on its collaborators only through: how many frames
  \<^verbatim>\<open>extract_frames\<close> returned, what \<^verbatim>\<open>transcribe_audio\<close> returned, and what became of
  the chat completion. The completion either raised (\<open>ApiError\<close>), or its text held no
  \<^verbatim>\<open>{...}\<close> for the regular expression (\<open>NoJsonObject\<close>), or \<^verbatim>\<open>json.loads\<close> raised
  (\<open>JsonDecodeError\<close>), or it parsed to an object. Of the object the model keeps the four
  keys the source reads, \<open>None\<close> for an absent key. The score is any JSON value,
  \<open>Numeric r\<close> when \<^verbatim>\<open>float()\<close> converts it to \<open>r\<close> and \<open>NotNumeric\<close> when
  \<^verbatim>\<open>float()\<close> raises on it. The suggested comment is any value of \<open>py_value\<close>:
  the source calls \<^verbatim>\<open>.upper()\<close> on it, which raises on anything but a string, after the
  four fields have been stored in the result; \<^verbatim>\<open>except Exception\<close> then returns the result
  as it stands. Category and explanation, which \<^verbatim>\<open>analyze_reel\<close> only copies, are JSON
  strings when present. The caption and the creator's name only go into the prompt and are
  left out.
\<close>

record analysis =
  a_humor_score :: real
  a_humor_category :: string
  a_explanation :: string
  a_suggested_comment :: py_value
  a_transcript :: string

datatype score_value = Numeric real | NotNumeric

record parsed =
  p_humor_score :: "score_value option"
  p_humor_category :: "string option"
  p_explanation :: "string option"
  p_suggested_comment :: "py_value option"

datatype response = ApiError | NoJsonObject | JsonDecodeError | Parsed parsed

record video =
  frames :: nat
  audio_transcript :: string
  api_response :: response

definition neutral :: analysis where
  "neutral = \<lparr>a_humor_score = 0, a_humor_category = ''unknown'', a_explanation = [],
              a_suggested_comment = PyStr [], a_transcript = []\<rparr>"

definition py_float :: "score_value option \<Rightarrow> real option" where
  "py_float v = (case v of None \<Rightarrow> Some 0 | Some (Numeric r) \<Rightarrow> Some r | Some NotNumeric \<Rightarrow> None)"

definition get_default :: "'a option \<Rightarrow> 'a \<Rightarrow> 'a" where
  "get_default v d = (case v of None \<Rightarrow> d | Some x \<Rightarrow> x)"

definition analyze_reel :: "video \<Rightarrow> analysis" where
  "analyze_reel v =
     (let result = neutral in
      if frames v = 0 then result
      else
        let result = result\<lparr>a_transcript := audio_transcript v\<rparr> in
        case api_response v of
          ApiError \<Rightarrow> result
        | NoJsonObject \<Rightarrow> result
        | JsonDecodeError \<Rightarrow> result
        | Parsed p \<Rightarrow>
            (case py_float (p_humor_score p) of
               None \<Rightarrow> result
             | Some r \<Rightarrow>
                 let result = result\<lparr>a_humor_score := r,
                        a_humor_category := get_default (p_humor_category p) ''unknown'',
                        a_explanation := get_default (p_explanation p) [],
                        a_suggested_comment :=
                          get_default (p_suggested_comment p) (PyStr [])\<rparr>
                 in case a_suggested_comment result of
                      PyStr s \<Rightarrow>
                        if upper s = ''SKIP'' then result\<lparr>a_suggested_comment := PyStr []\<rparr>
                        else result
                    | _ \<Rightarrow> result))"


section \<open>The session (main.py)\<close>

text \<open>
  \<open>config\<close> holds the configuration after the defaults of \<^verbatim>\<open>config.get\<close>. A
  \<open>feed_item\<close> is one element of \<^verbatim>\<open>get_reels_feed\<close> together with what the
  environment answers while it is handled: whether a stop condition that does not depend on
  the loop's own counters holds at the top of the iteration (shutdown flag, STOP file,
  deadline), the local date and the UTC date, and the downloaded video (\<open>None\<close> when
  \<^verbatim>\<open>download_reel\<close> fails). \<open>pk\<close> is \<^verbatim>\<open>str(reel_data["pk"])\<close>.
\<close>

record config =
  cfg_humor_threshold :: real
  cfg_comment_threshold :: real
  cfg_max_likes_per_day :: int
  cfg_max_comments_per_day :: int
  cfg_max_shares_per_day :: int
  max_reels_per_session :: int
  cooldown_after_actions :: int
  cooldown_duration_seconds :: int

record feed_item =
  pk :: string
  item_code :: string
  creator :: string
  caption_text :: string
  thumbnail :: "string option"
  stop_now :: bool
  clock_today :: date
  clock_utc :: date
  download :: "video option"

text \<open>
  \<^verbatim>\<open>Engager.__init__\<close>: \<open>fs\<close> is what \<^verbatim>\<open>_load_friends\<close> returned; the constructor
  synchronises the counters with it.
\<close>

definition Engager ::
  "instagram_client \<Rightarrow> database \<Rightarrow> config \<Rightarrow> friend_profile list \<Rightarrow> bool
     \<Rightarrow> engager \<times> database" where
  "Engager ig db cfg fs dry =
     (\<lparr>instagram = ig, dry_run = dry, friends = fs,
       humor_threshold = cfg_humor_threshold cfg,
       comment_threshold = cfg_comment_threshold cfg,
       max_likes_per_day = cfg_max_likes_per_day cfg,
       max_comments_per_day = cfg_max_comments_per_day cfg,
       max_shares_per_day = cfg_max_shares_per_day cfg\<rparr>,
      sync_friends_to_db fs db)"

text \<open>What a session does, in order, as far as the claims observe it.\<close>

datatype event =
  Skipped string
| DownloadFailed string
| Analyzed string
| Platform platform_call
| Saved string "string list"
| Cooldown int
| Wait

text \<open>
  \<open>process_reel\<close> is the inner \<^verbatim>\<open>try\<close> block of the loop body, run once the
  video is downloaded: analysis, engagement, saving, cooldown. It returns the database, the
  new value of \<^verbatim>\<open>actions_since_cooldown\<close> and what happened.
\<close>

definition process_reel ::
  "engager \<Rightarrow> bool \<Rightarrow> config \<Rightarrow> feed_item \<Rightarrow> video \<Rightarrow> int \<Rightarrow> database
     \<Rightarrow> database \<times> int \<times> event list" where
  "process_reel eng analyze_only cfg it v actions_since_cooldown db =
     (let a = analyze_reel v in
      case (if analyze_only then ([], db, [])
            else process_engagement eng (clock_today it) (clock_utc it) (pk it)
                   (a_humor_score a) (a_humor_category a) (a_suggested_comment a)
                   (item_code it) db) of
        (actions, db1, calls) \<Rightarrow>
          (let since = (if actions \<noteq> [] then actions_since_cooldown + int (length actions)
                        else actions_since_cooldown);
               action_str = (if actions \<noteq> [] then join '','' actions else ''none'');
               db2 = save_reel_analysis db1 (pk it)
                       \<lparr>row_timestamp = clock_utc it, reel_code = item_code it,
                        username = creator it, caption = caption_text it,
                        humor_score = a_humor_score a,
                        humor_category = a_humor_category a,
                        humor_explanation = a_explanation a,
                        transcript = a_transcript a,
                        action_taken = action_str,
                        thumbnail_url = thumbnail it\<rparr>
           in if since \<ge> cooldown_after_actions cfg
              then (db2, 0, Analyzed (pk it) # map Platform calls
                            @ [Saved (pk it) actions, Cooldown (cooldown_duration_seconds cfg)])
              else (db2, since, Analyzed (pk it) # map Platform calls
                            @ [Saved (pk it) actions])))"

text \<open>
  The \<^verbatim>\<open>for reel_data in instagram.get_reels_feed(...)\<close> loop; \<open>reels_processed\<close>
  and \<open>actions_since_cooldown\<close> are its two counters. \<^verbatim>\<open>continue\<close> goes to the
  next item without the wait at the end of the body.
\<close>

fun session_loop ::
  "engager \<Rightarrow> bool \<Rightarrow> config \<Rightarrow> feed_item list \<Rightarrow> int \<Rightarrow> int \<Rightarrow> database
     \<Rightarrow> database \<times> event list" where
  "session_loop eng analyze_only cfg [] reels_processed actions_since_cooldown db = (db, [])"
| "session_loop eng analyze_only cfg (it # rest) reels_processed actions_since_cooldown db =
     (if stop_now it then (db, [])
      else if reels_processed \<ge> max_reels_per_session cfg then (db, [])
      else if reel_already_analyzed db (pk it) then
        (case session_loop eng analyze_only cfg rest reels_processed actions_since_cooldown db of
           (db', evs) \<Rightarrow> (db', Skipped (pk it) # evs))
      else case download it of
        None \<Rightarrow>
          (case session_loop eng analyze_only cfg rest reels_processed actions_since_cooldown db of
             (db', evs) \<Rightarrow> (db', DownloadFailed (pk it) # evs))
      | Some v \<Rightarrow>
          (case process_reel eng analyze_only cfg it v actions_since_cooldown db of
             (db2, since, evs0) \<Rightarrow>
               (case session_loop eng analyze_only cfg rest (reels_processed + 1) since db2 of
                  (db', evs) \<Rightarrow> (db', evs0 @ Wait # evs))))"

text \<open>
  \<^verbatim>\<open>run_session\<close>: the engager is built (and the counters synchronised) before the login;
  a failed login returns before the loop.
\<close>

definition run_session ::
  "config \<Rightarrow> bool \<Rightarrow> bool \<Rightarrow> instagram_client \<Rightarrow> friend_profile list \<Rightarrow> bool
     \<Rightarrow> feed_item list \<Rightarrow> database \<Rightarrow> database \<times> event list" where
  "run_session cfg dry analyze_only ig fs login_ok feed db =
     (case Engager ig db cfg fs (dry \<or> analyze_only) of
        (eng, db0) \<Rightarrow>
          if \<not> login_ok then (db0, [])
          else session_loop eng analyze_only cfg feed 0 0 db0)"



section \<open>Notions used to state the properties\<close>

text \<open>The rows a step appended to \<^verbatim>\<open>engagement_log\<close>, and those of one action kind.\<close>

definition new_records :: "database \<Rightarrow> database \<Rightarrow> engagement list" where
  "new_records db db' = drop (length (engagement_log db)) (engagement_log db')"

definition attempts :: "action_kind \<Rightarrow> engagement list \<Rightarrow> engagement list" where
  "attempts kind es = filter (\<lambda>e. action_type e = kind) es"

fun kind_rank :: "action_kind \<Rightarrow> nat" where
  "kind_rank Like = 0"
| "kind_rank Comment = 1"
| "kind_rank Share = 2"

text \<open>
  The recipients a share may go to: those whose interests match the category and whose
  personal counter is below their cap, in declaration order.
\<close>

definition eligible_friends ::
  "engager \<Rightarrow> date \<Rightarrow> string \<Rightarrow> database \<Rightarrow> friend_profile list" where
  "eligible_friends eng today category db =
     filter (can_share_to_friend today db) (find_matching_friends eng category)"

fun daily_cap :: "engager \<Rightarrow> action_kind \<Rightarrow> int" where
  "daily_cap eng Like = max_likes_per_day eng"
| "daily_cap eng Comment = max_comments_per_day eng"
| "daily_cap eng Share = max_shares_per_day eng"

definition within_daily_caps :: "engager \<Rightarrow> database \<Rightarrow> bool" where
  "within_daily_caps eng db = (\<forall>kind d. count_today db kind d \<le> daily_cap eng kind)"

text \<open>
  No counter row of a configured recipient exceeds a cap configured for that recipient.
  Where the directory names each recipient once, this is: no row exceeds its recipient's cap.
\<close>

definition within_friend_caps :: "friend_profile list \<Rightarrow> database \<Rightarrow> bool" where
  "within_friend_caps fs db =
     (\<forall>name d c. name \<in> set (map friend_name fs) \<and> friend_shares db (name, d) = Some c
        \<longrightarrow> (\<exists>f\<in>set fs. friend_name f = name \<and> c \<le> friend_max_shares_per_day f))"

definition all_succeed :: "instagram_client \<Rightarrow> bool" where
  "all_succeed ig =
     ((\<forall>rid. like_media ig rid = Returned True)
      \<and> (\<forall>rid text. comment_media ig rid text = Returned True)
      \<and> (\<forall>rid name c. share_media_to_user ig rid name c = Returned True))"

definition eq_ignore_case :: "string \<Rightarrow> string \<Rightarrow> bool" where
  "eq_ignore_case a b = (lower a = lower b)"

text \<open>
  The ways an analysis fails: no frame could be extracted, the completion raised, its text
  held no JSON object or one that does not parse, the score is not a number, or the suggested
  comment is not a string. \<open>failed_after_storing\<close> singles out the last way when it is
  the only one: the exception is raised once the parsed fields are in the result.
\<close>

fun is_str :: "py_value \<Rightarrow> bool" where
  "is_str (PyStr s) = True"
| "is_str _ = False"

definition analysis_failed :: "video \<Rightarrow> bool" where
  "analysis_failed v =
     (frames v = 0 \<or> (case api_response v of
                          Parsed p \<Rightarrow> p_humor_score p = Some NotNumeric
                                        \<or> \<not> is_str (get_default (p_suggested_comment p) (PyStr []))
                        | _ \<Rightarrow> True))"

definition failed_after_storing :: "video \<Rightarrow> bool" where
  "failed_after_storing v =
     (frames v \<noteq> 0 \<and> (case api_response v of
                             Parsed p \<Rightarrow> p_humor_score p \<noteq> Some NotNumeric
                                        \<and> \<not> is_str (get_default (p_suggested_comment p) (PyStr []))
                           | _ \<Rightarrow> False))"

fun analyzed_of :: "event \<Rightarrow> string list" where
  "analyzed_of (Analyzed rid) = [rid]"
| "analyzed_of _ = []"

fun saved_of :: "event \<Rightarrow> string list" where
  "saved_of (Saved rid actions) = [rid]"
| "saved_of _ = []"

fun actions_of :: "event \<Rightarrow> nat" where
  "actions_of (Saved rid actions) = length actions"
| "actions_of _ = 0"

fun is_cooldown :: "event \<Rightarrow> bool" where
  "is_cooldown (Cooldown d) = True"
| "is_cooldown _ = False"

fun is_platform :: "event \<Rightarrow> bool" where
  "is_platform (Platform c) = True"
| "is_platform _ = False"

definition analyzed_ids :: "event list \<Rightarrow> string list" where
  "analyzed_ids evs = concat (map analyzed_of evs)"

definition saved_ids :: "event list \<Rightarrow> string list" where
  "saved_ids evs = concat (map saved_of evs)"

definition total_actions :: "event list \<Rightarrow> nat" where
  "total_actions evs = sum_list (map actions_of evs)"

definition cooldowns :: "event list \<Rightarrow> nat" where
  "cooldowns evs = length (filter is_cooldown evs)"

definition bookkeeping :: "event list \<Rightarrow> event list" where
  "bookkeeping evs = filter (\<lambda>e. \<not> is_platform e) evs"


text \<open>Two engagers that differ at most in the platform client and the dry-run flag.\<close>

definition same_settings :: "engager \<Rightarrow> engager \<Rightarrow> bool" where
  "same_settings e1 e2 =
     (friends e1 = friends e2 \<and> humor_threshold e1 = humor_threshold e2
      \<and> comment_threshold e1 = comment_threshold e2
      \<and> max_likes_per_day e1 = max_likes_per_day e2
      \<and> max_comments_per_day e1 = max_comments_per_day e2
      \<and> max_shares_per_day e1 = max_shares_per_day e2)"


section \<open>Concrete inputs\<close>

definition empty_db :: database where
  "empty_db = \<lparr>reels_analyzed = Map.empty, engagement_log = [], friend_shares = Map.empty\<rparr>"

definition ig_ok :: instagram_client where
  "ig_ok = \<lparr>like_media = (\<lambda>rid. Returned True),
            comment_media = (\<lambda>rid text. Returned True),
            share_media_to_user = (\<lambda>rid name c. Returned True)\<rparr>"

definition ig_down :: instagram_client where
  "ig_down = \<lparr>like_media = (\<lambda>rid. Returned False),
              comment_media = (\<lambda>rid text. Raised ''timeout''),
              share_media_to_user = (\<lambda>rid name c. Returned False)\<rparr>"

definition ann :: friend_profile where
  "ann = FriendProfile ''ann'' [''Animals''] 3"

definition bob :: friend_profile where
  "bob = FriendProfile ''bob'' [''cute''] 3"

definition cfg0 :: config where
  "cfg0 = \<lparr>cfg_humor_threshold = 7, cfg_comment_threshold = 8, cfg_max_likes_per_day = 100,
           cfg_max_comments_per_day = 20, cfg_max_shares_per_day = 10,
           max_reels_per_session = 50, cooldown_after_actions = 2,
           cooldown_duration_seconds = 60\<rparr>"

definition eng0 :: "instagram_client \<Rightarrow> bool \<Rightarrow> engager" where
  "eng0 ig dry = fst (Engager ig empty_db cfg0 [ann, bob] dry)"

definition funny :: video where
  "funny = \<lparr>frames = 4, audio_transcript = ''hello'',
            api_response = Parsed \<lparr>p_humor_score = Some (Numeric 9),
                                   p_humor_category = Some ''cute_animals'',
                                   p_explanation = Some ''a cat'',
                                   p_suggested_comment = Some (PyStr ''lol so true'')\<rparr>\<rparr>"

definition item :: "string \<Rightarrow> video option \<Rightarrow> feed_item" where
  "item rid v = \<lparr>pk = rid, item_code = ''C'', creator = ''author'', caption_text = [],
                thumbnail = None, stop_now = False, clock_today = ''2024-05-01'',
                clock_utc = ''2024-05-01'', download = v\<rparr>"



definition eng_nolikes :: engager where
  "eng_nolikes = (eng0 ig_ok False)\<lparr>max_likes_per_day := 0\<rparr>"


definition db_stale :: database where
  "db_stale = empty_db\<lparr>friend_shares := [(''zed'', ''2024-04-30'') \<mapsto> 2]\<rparr>"


definition skip_video :: video where
  "skip_video = \<lparr>frames = 4, audio_transcript = [],
       api_response = Parsed \<lparr>p_humor_score = Some (Numeric 10),
                              p_humor_category = Some ''absurd'',
                              p_explanation = Some ''very funny'',
                              p_suggested_comment = Some (PyStr ''Skip'')\<rparr>\<rparr>"


text \<open>
  A host whose local date is behind the UTC date (for instance UTC-8 in the evening), with a
  daily like cap of 1, and an answer whose suggested comment is a number.
\<close>

definition cfg_one_like :: config where
  "cfg_one_like = cfg0\<lparr>cfg_max_likes_per_day := 1\<rparr>"

definition evening_item :: "string \<Rightarrow> feed_item" where
  "evening_item rid = (item rid (Some funny))\<lparr>clock_utc := ''2024-05-02''\<rparr>"

definition numeric_comment :: video where
  "numeric_comment = \<lparr>frames = 4, audio_transcript = [],
       api_response = Parsed \<lparr>p_humor_score = Some (Numeric 9),
                              p_humor_category = Some ''absurd'',
                              p_explanation = Some ''very funny'',
                              p_suggested_comment = Some (PyNum 5)\<rparr>\<rparr>"

definition api_down :: video where
  "api_down = \<lparr>frames = 4, audio_transcript = ''hello'', api_response = ApiError\<rparr>"


section \<open>What one decision pass writes\<close>

lemma count_today_append:
  "engagement_log db' = engagement_log db @ es \<Longrightarrow>
   count_today db' kind d =
     count_today db kind d
       + int (length (filter (\<lambda>e. action_type e = kind \<and> timestamp e = d \<and> success e) es))"
  by (simp add: count_today_def)

lemma do_like_effect:
  assumes "do_like eng utc rid db = (ok, db', calls)"
  shows "\<exists>e. engagement_log db' = engagement_log db @ [e] \<and> action_type e = Like
             \<and> reel_id e = rid \<and> timestamp e = utc \<and> success e = ok"
    and "friend_shares db' = friend_shares db"
    and "reels_analyzed db' = reels_analyzed db"
    and "dry_run eng \<Longrightarrow> ok \<and> calls = []"
  using assms by (auto simp: do_like_def log_engagement_def split: if_splits outcome.splits)

lemma do_comment_effect:
  assumes "do_comment eng utc rid text db = (ok, db', calls)"
  shows "\<exists>e. engagement_log db' = engagement_log db @ [e] \<and> action_type e = Comment
             \<and> reel_id e = rid \<and> timestamp e = utc \<and> success e = ok"
    and "friend_shares db' = friend_shares db"
    and "reels_analyzed db' = reels_analyzed db"
    and "dry_run eng \<Longrightarrow> ok \<and> calls = []"
  using assms by (auto simp: do_comment_def log_engagement_def split: if_splits outcome.splits)

lemma do_share_effect:
  assumes "do_share eng today utc rid f code db = (ok, db', calls)"
  shows "\<exists>e. engagement_log db' = engagement_log db @ [e] \<and> action_type e = Share
             \<and> reel_id e = rid \<and> timestamp e = utc \<and> success e = ok"
    and "reels_analyzed db' = reels_analyzed db"
    and "dry_run eng \<Longrightarrow> ok \<and> calls = []"
    and "\<not> ok \<Longrightarrow> friend_shares db' = friend_shares db"
    and "ok \<Longrightarrow> friend_shares db' = (friend_shares db)((friend_name f, today) \<mapsto>
            get_friend_share_count_today db today (friend_name f) + 1)"
  using assms
  by (auto simp: do_share_def log_engagement_def increment_friend_share_count_def
      get_friend_share_count_today_def Let_def split: if_splits outcome.splits option.splits)


lemma can_share_to_friend_cong:
  "friend_shares db' = friend_shares db \<Longrightarrow>
   can_share_to_friend today db' f = can_share_to_friend today db f"
  by (simp add: can_share_to_friend_def get_friend_share_count_today_def)

lemma share_loop_log:
  "share_loop eng today utc rid code fs db = (actions, db', calls) \<Longrightarrow>
   \<exists>S. engagement_log db' = engagement_log db @ S
     \<and> (\<forall>e\<in>set S. action_type e = Share \<and> reel_id e = rid \<and> timestamp e = utc)
     \<and> length (filter success S) = length actions
     \<and> filter success (butlast S) = []
     \<and> map friend_username S =
         map (\<lambda>f. Some (friend_name f)) (take (length S) (filter (can_share_to_friend today db) fs))
     \<and> (filter success S = [] \<longrightarrow> length S = length (filter (can_share_to_friend today db) fs))
     \<and> (dry_run eng \<longrightarrow> length S \<le> 1 \<and> calls = [])"
proof (induction fs arbitrary: db actions db' calls)
  case Nil
  then show ?case by simp
next
  case (Cons f fs)
  show ?case
  proof (cases "can_share_to_friend today db f")
    case False
    with Cons.prems have "share_loop eng today utc rid code fs db = (actions, db', calls)" by simp
    from Cons.IH [OF this] False show ?thesis by simp
  next
    case True
    obtain ok db1 c1 where d: "do_share eng today utc rid f code db = (ok, db1, c1)"
      by (cases "do_share eng today utc rid f code db") auto
    from do_share_effect(1) [OF d] obtain e where
      e: "engagement_log db1 = engagement_log db @ [e]" "action_type e = Share"
         "reel_id e = rid" "timestamp e = utc" "success e = ok" by blast
    have fu: "friend_username e = Some (friend_name f)"
      using d e(1) by (auto simp: do_share_def log_engagement_def increment_friend_share_count_def
          Let_def split: if_splits outcome.splits)
    show ?thesis
    proof (cases ok)
      case True
      with Cons.prems \<open>can_share_to_friend today db f\<close> d
      have r: "actions = [''share:'' @ friend_name f]" "db' = db1" "calls = c1" by auto
      have "dry_run eng \<longrightarrow> calls = []" using do_share_effect(3) [OF d] r by simp
      with r e True fu \<open>can_share_to_friend today db f\<close> show ?thesis
        by (intro exI [of _ "[e]"]) simp
    next
      case False
      then have nd: "\<not> dry_run eng" using do_share_effect(3) [OF d] by blast
      have fs1: "friend_shares db1 = friend_shares db" using do_share_effect(4) [OF d] False by simp
      obtain a2 db2 c2 where l: "share_loop eng today utc rid code fs db1 = (a2, db2, c2)"
        by (cases "share_loop eng today utc rid code fs db1") auto
      with Cons.prems \<open>can_share_to_friend today db f\<close> d False
      have r: "actions = a2" "db' = db2" "calls = c1 @ c2" by auto
      from Cons.IH [OF l] obtain S where
        S: "engagement_log db2 = engagement_log db1 @ S"
           "\<forall>e\<in>set S. action_type e = Share \<and> reel_id e = rid \<and> timestamp e = utc"
           "length (filter success S) = length a2"
           "filter success (butlast S) = []"
           "map friend_username S =
              map (\<lambda>f. Some (friend_name f)) (take (length S) (filter (can_share_to_friend today db1) fs))"
           "filter success S = [] \<longrightarrow> length S = length (filter (can_share_to_friend today db1) fs)"
        by blast
      have eq: "filter (can_share_to_friend today db1) fs = filter (can_share_to_friend today db) fs"
        using can_share_to_friend_cong [OF fs1] by (intro filter_cong) auto
      have bl: "filter success (butlast (e # S)) = []"
        using S(4) e(5) False by (cases S) auto
      show ?thesis
        using S(1,2,3,5,6) e r nd False fu eq bl \<open>can_share_to_friend today db f\<close>
        by (intro exI [of _ "e # S"]) simp
    qed
  qed
qed


lemma share_loop_shares:
  "share_loop eng today utc rid code fs db = (actions, db', calls) \<Longrightarrow>
   reels_analyzed db' = reels_analyzed db
   \<and> ((actions = [] \<and> friend_shares db' = friend_shares db)
      \<or> (\<exists>f\<in>set fs. can_share_to_friend today db f
            \<and> actions = [''share:'' @ friend_name f]
            \<and> friend_shares db' = (friend_shares db)((friend_name f, today) \<mapsto>
                 get_friend_share_count_today db today (friend_name f) + 1)))"
proof (induction fs arbitrary: db actions db' calls)
  case Nil
  then show ?case by simp
next
  case (Cons f fs)
  show ?case
  proof (cases "can_share_to_friend today db f")
    case False
    with Cons.prems have "share_loop eng today utc rid code fs db = (actions, db', calls)" by simp
    from Cons.IH [OF this] show ?thesis by auto
  next
    case True
    obtain ok db1 c1 where d: "do_share eng today utc rid f code db = (ok, db1, c1)"
      by (cases "do_share eng today utc rid f code db") auto
    show ?thesis
    proof (cases ok)
      case True
      with Cons.prems \<open>can_share_to_friend today db f\<close> d
      have r: "actions = [''share:'' @ friend_name f]" "db' = db1" by auto
      with do_share_effect(2,5) [OF d] True \<open>can_share_to_friend today db f\<close>
      show ?thesis by simp
    next
      case False
      have fs1: "friend_shares db1 = friend_shares db" "reels_analyzed db1 = reels_analyzed db"
        using do_share_effect(2,4) [OF d] False by simp_all
      obtain a2 db2 c2 where l: "share_loop eng today utc rid code fs db1 = (a2, db2, c2)"
        by (cases "share_loop eng today utc rid code fs db1") auto
      with Cons.prems \<open>can_share_to_friend today db f\<close> d False
      have r: "actions = a2" "db' = db2" by auto
      have g: "\<And>u. get_friend_share_count_today db1 today u = get_friend_share_count_today db today u"
        using fs1 by (simp add: get_friend_share_count_today_def)
      from Cons.IH [OF l] show ?thesis
        unfolding r fs1 g using can_share_to_friend_cong [OF fs1(1)] by auto
    qed
  qed
qed

lemma like_decision_effect:
  assumes "like_decision eng today utc rid score db = (actions, db', calls)"
  shows "\<exists>L. engagement_log db' = engagement_log db @ L
            \<and> (\<forall>e\<in>set L. action_type e = Like \<and> reel_id e = rid \<and> timestamp e = utc)
            \<and> length L = (if score \<ge> humor_threshold eng \<and> can_like eng today db then 1 else 0)
            \<and> length (filter success L) = length actions
            \<and> (dry_run eng \<longrightarrow> calls = [])"
    and "friend_shares db' = friend_shares db"
    and "reels_analyzed db' = reels_analyzed db"
proof -
  show "\<exists>L. engagement_log db' = engagement_log db @ L
            \<and> (\<forall>e\<in>set L. action_type e = Like \<and> reel_id e = rid \<and> timestamp e = utc)
            \<and> length L = (if score \<ge> humor_threshold eng \<and> can_like eng today db then 1 else 0)
            \<and> length (filter success L) = length actions
            \<and> (dry_run eng \<longrightarrow> calls = [])"
  proof (cases "score \<ge> humor_threshold eng \<and> can_like eng today db")
    case False
    with assms show ?thesis by (auto simp: like_decision_def split: if_splits)
  next
    case True
    obtain ok db1 c1 where d: "do_like eng utc rid db = (ok, db1, c1)"
      by (cases "do_like eng utc rid db") auto
    with assms True have r: "actions = (if ok then [''like''] else [])" "db' = db1" "calls = c1"
      by (auto simp: like_decision_def)
    from do_like_effect(1) [OF d] obtain e where
      e: "engagement_log db1 = engagement_log db @ [e]" "action_type e = Like"
         "reel_id e = rid" "timestamp e = utc" "success e = ok" by blast
    show ?thesis using e r True do_like_effect(4) [OF d]
      by (intro exI [of _ "[e]"]) simp
  qed
  show "friend_shares db' = friend_shares db" "reels_analyzed db' = reels_analyzed db"
    using assms do_like_effect(2,3)
    by (auto simp: like_decision_def split: if_splits prod.splits)
qed

lemma comment_decision_effect:
  assumes "comment_decision eng today utc rid score text db = (actions, db', calls)"
  shows "\<exists>C. engagement_log db' = engagement_log db @ C
            \<and> (\<forall>e\<in>set C. action_type e = Comment \<and> reel_id e = rid \<and> timestamp e = utc)
            \<and> length C = (if score \<ge> comment_threshold eng \<and> truthy text
                             \<and> can_comment eng today db then 1 else 0)
            \<and> length (filter success C) = length actions
            \<and> (dry_run eng \<longrightarrow> calls = [])"
    and "friend_shares db' = friend_shares db"
    and "reels_analyzed db' = reels_analyzed db"
proof -
  show "\<exists>C. engagement_log db' = engagement_log db @ C
            \<and> (\<forall>e\<in>set C. action_type e = Comment \<and> reel_id e = rid \<and> timestamp e = utc)
            \<and> length C = (if score \<ge> comment_threshold eng \<and> truthy text
                             \<and> can_comment eng today db then 1 else 0)
            \<and> length (filter success C) = length actions
            \<and> (dry_run eng \<longrightarrow> calls = [])"
  proof (cases "score \<ge> comment_threshold eng \<and> truthy text \<and> can_comment eng today db")
    case False
    with assms show ?thesis by (auto simp: comment_decision_def split: if_splits)
  next
    case True
    obtain ok db1 c1 where d: "do_comment eng utc rid text db = (ok, db1, c1)"
      by (cases "do_comment eng utc rid text db") auto
    with assms True have r: "actions = (if ok then [''comment''] else [])" "db' = db1" "calls = c1"
      by (auto simp: comment_decision_def)
    from do_comment_effect(1) [OF d] obtain e where
      e: "engagement_log db1 = engagement_log db @ [e]" "action_type e = Comment"
         "reel_id e = rid" "timestamp e = utc" "success e = ok" by blast
    show ?thesis using e r True do_comment_effect(4) [OF d]
      by (intro exI [of _ "[e]"]) simp
  qed
  show "friend_shares db' = friend_shares db" "reels_analyzed db' = reels_analyzed db"
    using assms do_comment_effect(2,3)
    by (auto simp: comment_decision_def split: if_splits prod.splits)
qed


lemma count_today_other_kind:
  assumes "engagement_log db' = engagement_log db @ es"
    and "\<forall>e\<in>set es. action_type e = kind'" and "kind \<noteq> kind'"
  shows "count_today db' kind d = count_today db kind d"
proof -
  have "filter (\<lambda>e. action_type e = kind \<and> timestamp e = d \<and> success e) es = []"
    using assms(2,3) by (auto simp: filter_empty_conv)
  with count_today_append [OF assms(1)] show ?thesis by simp
qed

lemma process_engagement_effect:
  assumes "process_engagement eng today utc rid score category text rcode db = (actions, db', calls)"
  shows "\<exists>L C S. engagement_log db' = engagement_log db @ L @ C @ S
      \<and> (\<forall>e\<in>set L. action_type e = Like \<and> reel_id e = rid \<and> timestamp e = utc)
      \<and> length L = (if score \<ge> humor_threshold eng \<and> can_like eng today db then 1 else 0)
      \<and> (\<forall>e\<in>set C. action_type e = Comment \<and> reel_id e = rid \<and> timestamp e = utc)
      \<and> length C = (if score \<ge> comment_threshold eng \<and> truthy text
                       \<and> can_comment eng today db then 1 else 0)
      \<and> (\<forall>e\<in>set S. action_type e = Share \<and> reel_id e = rid \<and> timestamp e = utc)
      \<and> length (filter success S) \<le> 1
      \<and> filter success (butlast S) = []
      \<and> map friend_username S =
          map (\<lambda>f. Some (friend_name f))
              (take (length S) (eligible_friends eng today category db))
      \<and> (\<not> can_share eng today db \<longrightarrow> S = [])
      \<and> (can_share eng today db \<and> filter success S = []
             \<longrightarrow> length S = length (eligible_friends eng today category db))
      \<and> (dry_run eng \<longrightarrow> length S \<le> 1 \<and> calls = [])
      \<and> length actions = length (filter success (L @ C @ S))
      \<and> ((filter success S = [] \<and> friend_shares db' = friend_shares db)
         \<or> (filter success S \<noteq> []
            \<and> (\<exists>f\<in>set (friends eng). can_share_to_friend today db f
              \<and> friend_shares db' = (friend_shares db)((friend_name f, today) \<mapsto>
                   get_friend_share_count_today db today (friend_name f) + 1))))"
    (is "\<exists>L C S. ?P L C S")
    and "reels_analyzed db' = reels_analyzed db"
proof -
  obtain a1 db1 c1 where p1: "like_decision eng today utc rid score db = (a1, db1, c1)"
    by (cases "like_decision eng today utc rid score db") auto
  obtain a2 db2 c2 where p2: "comment_decision eng today utc rid score text db1 = (a2, db2, c2)"
    by (cases "comment_decision eng today utc rid score text db1") auto
  obtain a3 db3 c3 where p3: "share_decision eng today utc rid category rcode db2 = (a3, db3, c3)"
    by (cases "share_decision eng today utc rid category rcode db2") auto
  from assms p1 p2 p3 have r: "actions = a1 @ a2 @ a3" "db' = db3" "calls = c1 @ c2 @ c3"
    by (auto simp: process_engagement_def)
  from like_decision_effect(1) [OF p1] obtain L where
    L: "engagement_log db1 = engagement_log db @ L"
       "\<forall>e\<in>set L. action_type e = Like \<and> reel_id e = rid \<and> timestamp e = utc"
       "length L = (if score \<ge> humor_threshold eng \<and> can_like eng today db then 1 else 0)"
       "length (filter success L) = length a1" "dry_run eng \<longrightarrow> c1 = []"
    by blast
  have cc: "can_comment eng today db1 = can_comment eng today db"
    using count_today_other_kind [OF L(1), of Like Comment today] L(2)
    by (simp add: can_comment_def get_daily_engagement_counts_def)
  from comment_decision_effect(1) [OF p2] obtain C where
    C: "engagement_log db2 = engagement_log db1 @ C"
       "\<forall>e\<in>set C. action_type e = Comment \<and> reel_id e = rid \<and> timestamp e = utc"
       "length C = (if score \<ge> comment_threshold eng \<and> truthy text
                       \<and> can_comment eng today db then 1 else 0)"
       "length (filter success C) = length a2" "dry_run eng \<longrightarrow> c2 = []"
    unfolding cc by blast
  have fs2: "friend_shares db2 = friend_shares db" "reels_analyzed db2 = reels_analyzed db"
    using like_decision_effect(2,3) [OF p1] comment_decision_effect(2,3) [OF p2] by simp_all
  have "count_today db2 Share today = count_today db1 Share today"
    using count_today_other_kind [OF C(1), of Comment Share today] C(2) by simp
  also have "\<dots> = count_today db Share today"
    using count_today_other_kind [OF L(1), of Like Share today] L(2) by simp
  finally have cs: "can_share eng today db2 = can_share eng today db"
    by (simp add: can_share_def get_daily_engagement_counts_def)
  have el: "filter (can_share_to_friend today db2) (find_matching_friends eng category)
            = eligible_friends eng today category db"
    unfolding eligible_friends_def using can_share_to_friend_cong [OF fs2(1)]
    by (intro filter_cong) auto
  have g: "\<And>u. get_friend_share_count_today db2 today u = get_friend_share_count_today db today u"
    using fs2 by (simp add: get_friend_share_count_today_def)
  show "reels_analyzed db' = reels_analyzed db"
    using p3 share_loop_shares fs2(2) r(2)
    by (fastforce simp: share_decision_def split: if_splits)
  show "\<exists>L C S. ?P L C S"
  proof (cases "can_share eng today db")
    case False
    with p3 cs have "a3 = []" "db3 = db2" "c3 = []" by (auto simp: share_decision_def)
    with L C r False fs2 have "?P L C []" by simp
    then show ?thesis by blast
  next
    case True
    with p3 cs have l: "share_loop eng today utc rid rcode (find_matching_friends eng category) db2
                        = (a3, db3, c3)"
      by (simp add: share_decision_def)
    from share_loop_log [OF l] obtain S where
      S: "engagement_log db3 = engagement_log db2 @ S"
         "\<forall>e\<in>set S. action_type e = Share \<and> reel_id e = rid \<and> timestamp e = utc"
         "length (filter success S) = length a3"
         "filter success (butlast S) = []"
         "map friend_username S = map (\<lambda>f. Some (friend_name f))
            (take (length S) (eligible_friends eng today category db))"
         "filter success S = [] \<longrightarrow> length S = length (eligible_friends eng today category db)"
         "dry_run eng \<longrightarrow> length S \<le> 1 \<and> c3 = []"
      unfolding el by blast
    have a3: "length a3 \<le> 1" using share_loop_shares [OF l] by auto
    have sh: "(filter success S = [] \<and> friend_shares db3 = friend_shares db)
         \<or> (filter success S \<noteq> []
            \<and> (\<exists>f\<in>set (friends eng). can_share_to_friend today db f
              \<and> friend_shares db3 = (friend_shares db)((friend_name f, today) \<mapsto>
                   get_friend_share_count_today db today (friend_name f) + 1)))"
      using share_loop_shares [OF l] S(3)
      unfolding g fs2 using can_share_to_friend_cong [OF fs2(1)]
      by (auto simp: find_matching_friends_def)
    from L C S r True a3 sh have "?P L C S" by simp
    then show ?thesis by blast
  qed
qed

lemma new_records_append:
  "engagement_log db' = engagement_log db @ es \<Longrightarrow> new_records db db' = es"
  by (simp add: new_records_def)

lemma sorted_map_const:
  "\<forall>x\<in>set xs. f x = (c::nat) \<Longrightarrow> sorted (map f xs)"
  by (induction xs) auto

lemma attempts_decompose:
  assumes "\<forall>e\<in>set L. action_type e = Like" "\<forall>e\<in>set C. action_type e = Comment"
    "\<forall>e\<in>set S. action_type e = Share"
  shows "attempts Like (L @ C @ S) = L" "attempts Comment (L @ C @ S) = C"
    "attempts Share (L @ C @ S) = S"
    "sorted (map (\<lambda>e. kind_rank (action_type e)) (L @ C @ S))"
proof -
  have a: "\<And>k es. \<forall>e\<in>set es. action_type e = k \<Longrightarrow> filter (\<lambda>e. action_type e = k) es = es"
    by (simp add: filter_id_conv)
  have b: "\<And>k k' es. \<forall>e\<in>set es. action_type e = k \<Longrightarrow> k' \<noteq> k
              \<Longrightarrow> filter (\<lambda>e. action_type e = k') es = []"
    by (auto simp: filter_empty_conv)
  show "attempts Like (L @ C @ S) = L"
    using a [OF assms(1)] b [OF assms(2), of Like] b [OF assms(3), of Like]
    by (simp add: attempts_def)
  show "attempts Comment (L @ C @ S) = C"
    using a [OF assms(2)] b [OF assms(1), of Comment] b [OF assms(3), of Comment]
    by (simp add: attempts_def)
  show "attempts Share (L @ C @ S) = S"
    using a [OF assms(3)] b [OF assms(1), of Share] b [OF assms(2), of Share]
    by (simp add: attempts_def)
  show "sorted (map (\<lambda>e. kind_rank (action_type e)) (L @ C @ S))"
    using assms sorted_map_const [of L "\<lambda>e. kind_rank (action_type e)" 0]
      sorted_map_const [of C "\<lambda>e. kind_rank (action_type e)" 1]
      sorted_map_const [of S "\<lambda>e. kind_rank (action_type e)" 2]
    by (auto simp: sorted_append)
qed


section \<open>The decision engine\<close>

text \<open>
  C5. In one decision pass a like is attempted (a like row is written, successful or not)
  exactly when the score reaches the like threshold and the daily like cap allows, and then
  once; a comment is attempted exactly when the score reaches the comment threshold, the
  suggested text is not empty (is true as Python reads it, for a value that is not a string)
  and the daily comment cap allows, and then once. Neither
  condition mentions the outcome of any action, and the comment's condition does not mention
  the like. The rows of the pass come in the order like, comment, share, whatever the
  platform answers.
\<close>

theorem decision_order:
  assumes "process_engagement eng today utc rid score category text rcode db = (actions, db', calls)"
  shows "engagement_log db' = engagement_log db @ new_records db db'
    \<and> length (attempts Like (new_records db db')) =
        (if score \<ge> humor_threshold eng \<and> can_like eng today db then 1 else 0)
    \<and> length (attempts Comment (new_records db db')) =
        (if score \<ge> comment_threshold eng \<and> truthy text \<and> can_comment eng today db
         then 1 else 0)
    \<and> sorted (map (\<lambda>e. kind_rank (action_type e)) (new_records db db'))"
proof -
  from process_engagement_effect(1) [OF assms] obtain L C S where
    e: "engagement_log db' = engagement_log db @ L @ C @ S"
       "\<forall>e\<in>set L. action_type e = Like \<and> reel_id e = rid \<and> timestamp e = utc"
       "length L = (if score \<ge> humor_threshold eng \<and> can_like eng today db then 1 else 0)"
       "\<forall>e\<in>set C. action_type e = Comment \<and> reel_id e = rid \<and> timestamp e = utc"
       "length C = (if score \<ge> comment_threshold eng \<and> truthy text
                       \<and> can_comment eng today db then 1 else 0)"
       "\<forall>e\<in>set S. action_type e = Share \<and> reel_id e = rid \<and> timestamp e = utc"
    by blast
  have n: "new_records db db' = L @ C @ S" using new_records_append [OF e(1)] .
  have k: "\<forall>e\<in>set L. action_type e = Like" "\<forall>e\<in>set C. action_type e = Comment"
    "\<forall>e\<in>set S. action_type e = Share" using e(2,4,6) by simp_all
  show ?thesis
    unfolding n attempts_decompose [OF k] using e(1,3,5) attempts_decompose(4) [OF k] by simp
qed

theorem decision_order_witness:
  "length (attempts Like (new_records empty_db (fst (snd
      (process_engagement eng_nolikes ''2024-05-01'' ''2024-05-01'' ''r1'' 9 ''cute_animals'' (PyStr ''lol'') ''C''
         empty_db))))) = 0
   \<and> length (attempts Comment (new_records empty_db (fst (snd
      (process_engagement eng_nolikes ''2024-05-01'' ''2024-05-01'' ''r1'' 9 ''cute_animals'' (PyStr ''lol'') ''C''
         empty_db))))) = 1"
proof -
  let ?r = "process_engagement eng_nolikes ''2024-05-01'' ''2024-05-01'' ''r1'' 9 ''cute_animals'' (PyStr ''lol'') ''C''
         empty_db"
  have h: "?r = (fst ?r, fst (snd ?r), snd (snd ?r))" by simp
  have c: "\<not> can_like eng_nolikes ''2024-05-01'' empty_db"
    "can_comment eng_nolikes ''2024-05-01'' empty_db"
    "humor_threshold eng_nolikes \<le> 9" "comment_threshold eng_nolikes \<le> 9"
    by (simp_all add: can_like_def can_comment_def get_daily_engagement_counts_def
        count_today_def empty_db_def eng_nolikes_def eng0_def Engager_def cfg0_def)
  from decision_order [OF h] c show ?thesis by simp
qed

section \<open>One share per item\<close>

text \<open>
  C1, as stated: within one decision pass at most one share row (successful or failed)
  referencing the item is written. It fails: with two matching recipients under their caps and
  a platform that refuses every share, the loop goes on after the first failure and writes two
  share rows for the same item.
\<close>

theorem one_share_record_counterexample:
  "\<not> length (attempts Share (new_records empty_db (fst (snd
        (process_engagement (eng0 ig_down False) ''2024-05-01'' ''2024-05-01'' ''r1'' 9
           ''cute_animals'' (PyStr ''lol'') ''C'' empty_db))))) \<le> 1"
  by code_simp

text \<open>
  C1, amended: within one decision pass at most one successful share row referencing the
  item is written, and every share row before the last one of the pass is a failure. The share
  rows go, one each and in declaration order, to the first recipients whose interests match
  the category and whose personal cap allows; when none of them succeeded every such recipient
  was tried. When the global share cap does not allow, no share row is written; in dry-run mode
  at most one share row is written.
\<close>

theorem one_successful_share:
  assumes "process_engagement eng today utc rid score category text rcode db = (actions, db', calls)"
  shows "length (filter success (attempts Share (new_records db db'))) \<le> 1
    \<and> filter success (butlast (attempts Share (new_records db db'))) = []
    \<and> map friend_username (attempts Share (new_records db db')) =
        map (\<lambda>f. Some (friend_name f))
            (take (length (attempts Share (new_records db db')))
                  (eligible_friends eng today category db))
    \<and> (\<forall>e\<in>set (attempts Share (new_records db db')). reel_id e = rid)
    \<and> (\<not> can_share eng today db \<longrightarrow> attempts Share (new_records db db') = [])
    \<and> (can_share eng today db \<and> filter success (attempts Share (new_records db db')) = []
         \<longrightarrow> length (attempts Share (new_records db db'))
               = length (eligible_friends eng today category db))
    \<and> (dry_run eng \<longrightarrow> length (attempts Share (new_records db db')) \<le> 1)"
proof -
  from process_engagement_effect(1) [OF assms] obtain L C S where
    e: "engagement_log db' = engagement_log db @ L @ C @ S"
       "\<forall>e\<in>set L. action_type e = Like \<and> reel_id e = rid \<and> timestamp e = utc"
       "\<forall>e\<in>set C. action_type e = Comment \<and> reel_id e = rid \<and> timestamp e = utc"
       "\<forall>e\<in>set S. action_type e = Share \<and> reel_id e = rid \<and> timestamp e = utc"
       "length (filter success S) \<le> 1"
       "filter success (butlast S) = []"
       "map friend_username S = map (\<lambda>f. Some (friend_name f))
              (take (length S) (eligible_friends eng today category db))"
       "\<not> can_share eng today db \<longrightarrow> S = []"
       "can_share eng today db \<and> filter success S = []
             \<longrightarrow> length S = length (eligible_friends eng today category db)"
       "dry_run eng \<longrightarrow> length S \<le> 1 \<and> calls = []"
    by blast
  have n: "new_records db db' = L @ C @ S" using new_records_append [OF e(1)] .
  have k: "\<forall>e\<in>set L. action_type e = Like" "\<forall>e\<in>set C. action_type e = Comment"
    "\<forall>e\<in>set S. action_type e = Share" using e(2,3,4) by simp_all
  show ?thesis
    unfolding n attempts_decompose(3) [OF k] using e(4-10) by simp
qed

theorem one_successful_share_witness:
  "length (attempts Share (new_records empty_db (fst (snd
      (process_engagement (eng0 ig_ok True) ''2024-05-01'' ''2024-05-01'' ''r1'' 9 ''cute_animals'' (PyStr ''lol'') ''C''
         empty_db))))) \<le> 1
   \<and> map friend_username (attempts Share (new_records empty_db (fst (snd
      (process_engagement (eng0 ig_ok True) ''2024-05-01'' ''2024-05-01'' ''r1'' 9 ''cute_animals'' (PyStr ''lol'') ''C''
         empty_db))))) = [Some ''ann'']"
proof -
  let ?r = "process_engagement (eng0 ig_ok True) ''2024-05-01'' ''2024-05-01'' ''r1'' 9 ''cute_animals'' (PyStr ''lol'')
              ''C'' empty_db"
  let ?S = "attempts Share (new_records empty_db (fst (snd ?r)))"
  have h: "?r = (fst ?r, fst (snd ?r), snd (snd ?r))" by simp
  have d: "dry_run (eng0 ig_ok True)" by (simp add: eng0_def Engager_def)
  have c: "can_share (eng0 ig_ok True) ''2024-05-01'' empty_db" by code_simp
  have el: "eligible_friends (eng0 ig_ok True) ''2024-05-01'' ''cute_animals'' empty_db = [ann, bob]"
    by code_simp
  have nm: "friend_name ann = ''ann''" by code_simp
  note t = one_successful_share [OF h]
  have l1: "length ?S \<le> 1" using t d by blast
  have "length (filter success ?S) \<le> 1" using t by blast
  have ne: "?S \<noteq> []"
  proof
    assume a: "?S = []"
    then have "filter success ?S = []" by simp
    with t c have "length ?S = length (eligible_friends (eng0 ig_ok True) ''2024-05-01'' ''cute_animals'' empty_db)"
      by blast
    with a el show False by simp
  qed
  from l1 ne have len: "length ?S = 1" by (cases ?S) auto
  have "map friend_username ?S = map (\<lambda>f. Some (friend_name f))
            (take (length ?S) (eligible_friends (eng0 ig_ok True) ''2024-05-01'' ''cute_animals'' empty_db))"
    using t by blast
  with len el nm have "map friend_username ?S = [Some ''ann'']" by simp
  with l1 show ?thesis by blast
qed

section \<open>Daily caps in one pass\<close>

lemma filter_le:
  "length (filter (\<lambda>e. P e \<and> Q e) xs) \<le> length (filter Q xs)"
  by (induction xs) auto

text \<open>When the two clocks show the same date, a pass keeps the counts within the caps.\<close>

lemma within_daily_caps_step:
  assumes caps: "within_daily_caps eng db"
    and p: "process_engagement eng today today rid score category text rcode db = (actions, db', calls)"
  shows "within_daily_caps eng db'"
    and "\<forall>kind. attempts kind (new_records db db') \<noteq> []
           \<longrightarrow> count_today db kind today < daily_cap eng kind"
    and "\<forall>kind d. count_today db' kind d = count_today db kind d
           + int (length (filter (\<lambda>e. timestamp e = d \<and> success e)
                                 (attempts kind (new_records db db'))))"
proof -
  from process_engagement_effect(1) [OF p] obtain L C S where
    e: "engagement_log db' = engagement_log db @ L @ C @ S"
       "\<forall>e\<in>set L. action_type e = Like \<and> reel_id e = rid \<and> timestamp e = today"
       "length L = (if score \<ge> humor_threshold eng \<and> can_like eng today db then 1 else 0)"
       "\<forall>e\<in>set C. action_type e = Comment \<and> reel_id e = rid \<and> timestamp e = today"
       "length C = (if score \<ge> comment_threshold eng \<and> truthy text
                       \<and> can_comment eng today db then 1 else 0)"
       "\<forall>e\<in>set S. action_type e = Share \<and> reel_id e = rid \<and> timestamp e = today"
       "length (filter success S) \<le> 1"
       "\<not> can_share eng today db \<longrightarrow> S = []"
    by blast
  have n: "new_records db db' = L @ C @ S" using new_records_append [OF e(1)] .
  have k: "\<forall>e\<in>set L. action_type e = Like" "\<forall>e\<in>set C. action_type e = Comment"
    "\<forall>e\<in>set S. action_type e = Share" using e(2,4,6) by simp_all
  have dec: "attempts Like (new_records db db') = L" "attempts Comment (new_records db db') = C"
    "attempts Share (new_records db db') = S"
    unfolding n using attempts_decompose(1-3) [OF k] by simp_all
  have cnt: "count_today db' kind d = count_today db kind d
           + int (length (filter (\<lambda>e. timestamp e = d \<and> success e)
                                 (attempts kind (new_records db db'))))" for kind d
    using count_today_append [OF e(1), of kind d]
    by (simp add: n attempts_def conj_commute conj_left_commute)
  show "\<forall>kind d. count_today db' kind d = count_today db kind d
           + int (length (filter (\<lambda>e. timestamp e = d \<and> success e)
                                 (attempts kind (new_records db db'))))"
    using cnt by blast
  have below: "attempts kind (new_records db db') \<noteq> []
                 \<Longrightarrow> count_today db kind today < daily_cap eng kind" for kind
  proof (cases kind)
    case Like
    assume "attempts kind (new_records db db') \<noteq> []"
    with Like dec e(3) show ?thesis
      by (auto simp: can_like_def get_daily_engagement_counts_def split: if_splits)
  next
    case Comment
    assume "attempts kind (new_records db db') \<noteq> []"
    with Comment dec e(5) show ?thesis
      by (auto simp: can_comment_def get_daily_engagement_counts_def split: if_splits)
  next
    case Share
    assume "attempts kind (new_records db db') \<noteq> []"
    with Share dec e(8) show ?thesis
      by (auto simp: can_share_def get_daily_engagement_counts_def)
  qed
  then show "\<forall>kind. attempts kind (new_records db db') \<noteq> []
           \<longrightarrow> count_today db kind today < daily_cap eng kind" by blast
  have one: "length (filter success (attempts kind (new_records db db'))) \<le> 1" for kind
  proof (cases kind)
    case Like
    have "length (filter success L) \<le> length L" by simp
    with Like dec e(3) show ?thesis by (simp split: if_splits)
  next
    case Comment
    have "length (filter success C) \<le> length C" by simp
    with Comment dec e(5) show ?thesis by (simp split: if_splits)
  next
    case Share
    with dec e(7) show ?thesis by simp
  qed
  have ts: "\<forall>e\<in>set (attempts kind (new_records db db')). timestamp e = today" for kind
    using e(2,4,6) unfolding n by (auto simp: attempts_def)
  show "within_daily_caps eng db'"
    unfolding within_daily_caps_def
  proof (intro allI)
    fix kind d
    let ?A = "attempts kind (new_records db db')"
    have c0: "count_today db kind d \<le> daily_cap eng kind"
      using caps by (simp add: within_daily_caps_def)
    show "count_today db' kind d \<le> daily_cap eng kind"
    proof (cases "d = today \<and> ?A \<noteq> []")
      case True
      have "length (filter (\<lambda>e. timestamp e = d \<and> success e) ?A) \<le> length (filter success ?A)"
        by (rule filter_le)
      with one [of kind] have "length (filter (\<lambda>e. timestamp e = d \<and> success e) ?A) \<le> 1"
        by linarith
      with cnt [of kind d] below [of kind] True show ?thesis by simp
    next
      case False
      have "filter (\<lambda>e. timestamp e = d \<and> success e) ?A = []"
        using False ts [of kind] by (auto simp: filter_empty_conv)
      with cnt [of kind d] c0 show ?thesis by simp
    qed
  qed
qed

lemma within_daily_caps_empty: "within_daily_caps (eng0 ig dry) empty_db"
  unfolding within_daily_caps_def
proof (intro allI)
  fix kind d
  show "count_today empty_db kind d \<le> daily_cap (eng0 ig dry) kind"
    by (cases kind) (simp_all add: count_today_def empty_db_def eng0_def Engager_def cfg0_def)
qed

section \<open>Synchronising the recipient counters\<close>

text \<open>
  C7, as stated: on every load, every counter row whose recipient is absent from the loaded
  list is deleted, also when the list is empty. It fails for the empty list:
  \<^verbatim>\<open>_sync_friends_to_db\<close> returns before the DELETE, and a row of a recipient who is
  not in the (empty) list stays.
\<close>

theorem sync_empty_list_counterexample:
  "''zed'' \<notin> set (map friend_name [])
   \<and> friend_shares (sync_friends_to_db [] db_stale) (''zed'', ''2024-04-30'') = Some 2"
  by (simp add: sync_friends_to_db_def db_stale_def)

text \<open>
  C7, amended: on a load with a non-empty recipient list, every counter row whose recipient is
  absent from the list is deleted and every other row is kept as it is; on a load with an
  empty list the store is left unchanged. The other tables are never touched.
\<close>

theorem sync_removes_absent:
  "(fs \<noteq> [] \<longrightarrow>
      (\<forall>name d. friend_shares (sync_friends_to_db fs db) (name, d) =
          (if name \<in> set (map friend_name fs) then friend_shares db (name, d) else None)))
   \<and> (fs = [] \<longrightarrow> sync_friends_to_db fs db = db)
   \<and> reels_analyzed (sync_friends_to_db fs db) = reels_analyzed db
   \<and> engagement_log (sync_friends_to_db fs db) = engagement_log db"
  by (simp add: sync_friends_to_db_def Let_def)

theorem sync_removes_absent_witness:
  "[ann] \<noteq> [] \<and> friend_shares (sync_friends_to_db [ann] db_stale) (''zed'', ''2024-04-30'') = None"
proof -
  have "''zed'' \<notin> set (map friend_name [ann])" by (simp add: ann_def FriendProfile_def)
  with sync_removes_absent [of "[ann]" db_stale] show ?thesis by simp
qed

section \<open>The SKIP answer\<close>

lemma upper_lower_char: "upper_char (lower_char c) = upper_char c"
  by (auto simp: upper_char_def lower_char_def)

lemma eq_ignore_case_SKIP:
  assumes "eq_ignore_case s ''SKIP''"
  shows "upper s = ''SKIP''"
proof -
  from assms have "lower s = lower ''SKIP''" by (simp add: eq_ignore_case_def)
  then have "upper (lower s) = upper (lower ''SKIP'')" by simp
  moreover have "upper (lower s) = upper s" by (simp add: upper_def lower_def upper_lower_char)
  moreover have "upper (lower ''SKIP'') = ''SKIP''" by code_simp
  ultimately show ?thesis by simp
qed

lemma no_text_no_comment:
  assumes "process_engagement eng today utc rid score category (PyStr []) rcode db
             = (actions, db', calls)"
  shows "attempts Comment (new_records db db') = []"
proof -
  from process_engagement_effect(1) [OF assms] obtain L C S where
    e: "engagement_log db' = engagement_log db @ L @ C @ S"
       "\<forall>e\<in>set L. action_type e = Like \<and> reel_id e = rid \<and> timestamp e = utc"
       "\<forall>e\<in>set C. action_type e = Comment \<and> reel_id e = rid \<and> timestamp e = utc"
       "length C = (if score \<ge> comment_threshold eng \<and> truthy (PyStr [])
                       \<and> can_comment eng today db then 1 else 0)"
       "\<forall>e\<in>set S. action_type e = Share \<and> reel_id e = rid \<and> timestamp e = utc"
    by blast
  have n: "new_records db db' = L @ C @ S" using new_records_append [OF e(1)] .
  have k: "\<forall>e\<in>set L. action_type e = Like" "\<forall>e\<in>set C. action_type e = Comment"
    "\<forall>e\<in>set S. action_type e = Share" using e(2,3,5) by simp_all
  show ?thesis unfolding n attempts_decompose(2) [OF k] using e(4) by simp
qed

text \<open>
  C10. When the parsed suggested comment equals \<^verbatim>\<open>SKIP\<close> ignoring case, the analysis
  result has an empty suggested comment, and a decision pass on that result writes no comment
  row, whatever the score, the caps and the platform.
\<close>

theorem skip_never_comments:
  assumes "api_response v = Parsed p" and "p_suggested_comment p = Some (PyStr s)"
    and "eq_ignore_case s ''SKIP''"
  shows "a_suggested_comment (analyze_reel v) = PyStr []
    \<and> attempts Comment (new_records db (fst (snd
          (process_engagement eng today utc rid (a_humor_score (analyze_reel v))
             (a_humor_category (analyze_reel v)) (a_suggested_comment (analyze_reel v))
             rcode db)))) = []"
proof -
  have u: "upper s = ''SKIP''" using eq_ignore_case_SKIP [OF assms(3)] .
  have a: "a_suggested_comment (analyze_reel v) = PyStr []"
    using assms(1,2) u
    by (simp add: analyze_reel_def neutral_def get_default_def Let_def split: option.splits)
  let ?r = "process_engagement eng today utc rid (a_humor_score (analyze_reel v))
             (a_humor_category (analyze_reel v)) (PyStr []) rcode db"
  have h: "?r = (fst ?r, fst (snd ?r), snd (snd ?r))" by simp
  from no_text_no_comment [OF h] a show ?thesis by simp
qed

theorem skip_never_comments_witness:
  "eq_ignore_case ''Skip'' ''SKIP''
   \<and> a_suggested_comment (analyze_reel skip_video) = PyStr []
   \<and> attempts Comment (new_records empty_db (fst (snd
          (process_engagement (eng0 ig_ok True) ''2024-05-01'' ''2024-05-01'' ''r1''
             (a_humor_score (analyze_reel skip_video))
             (a_humor_category (analyze_reel skip_video))
             (a_suggested_comment (analyze_reel skip_video)) ''C'' empty_db)))) = []"
proof -
  have 1: "api_response skip_video = Parsed \<lparr>p_humor_score = Some (Numeric 10),
                              p_humor_category = Some ''absurd'',
                              p_explanation = Some ''very funny'',
                              p_suggested_comment = Some (PyStr ''Skip'')\<rparr>"
    by (simp add: skip_video_def)
  have 2: "p_suggested_comment \<lparr>p_humor_score = Some (Numeric 10),
                              p_humor_category = Some ''absurd'',
                              p_explanation = Some ''very funny'',
                              p_suggested_comment = Some (PyStr ''Skip'')\<rparr>
          = Some (PyStr ''Skip'')"
    by simp
  have 3: "eq_ignore_case ''Skip'' ''SKIP''" by code_simp
  from skip_never_comments [OF 1 2 3] 3 show ?thesis by blast
qed

section \<open>Dry run against a live run\<close>

lemma do_like_parity:
  assumes "dry_run e1" "\<not> dry_run e2" "all_succeed (instagram e2)"
  shows "do_like e1 utc rid db = (True, fst (snd (do_like e2 utc rid db)), [])"
    and "fst (do_like e2 utc rid db) = True"
  using assms by (simp_all add: do_like_def all_succeed_def)

lemma do_comment_parity:
  assumes "dry_run e1" "\<not> dry_run e2" "all_succeed (instagram e2)"
  shows "do_comment e1 utc rid text db = (True, fst (snd (do_comment e2 utc rid text db)), [])"
    and "fst (do_comment e2 utc rid text db) = True"
  using assms by (simp_all add: do_comment_def all_succeed_def)

lemma do_share_parity:
  assumes "dry_run e1" "\<not> dry_run e2" "all_succeed (instagram e2)"
  shows "do_share e1 today utc rid f rcode db = (True, fst (snd (do_share e2 today utc rid f rcode db)), [])"
    and "fst (do_share e2 today utc rid f rcode db) = True"
  using assms by (simp_all add: do_share_def all_succeed_def Let_def)

lemma like_decision_parity:
  assumes "dry_run e1" "\<not> dry_run e2" "all_succeed (instagram e2)" "same_settings e1 e2"
  shows "like_decision e1 today utc rid score db =
           (fst (like_decision e2 today utc rid score db),
            fst (snd (like_decision e2 today utc rid score db)), [])"
  using assms do_like_parity [OF assms(1-3), of utc rid db]
  by (auto simp: like_decision_def same_settings_def can_like_def split: prod.splits)

lemma comment_decision_parity:
  assumes "dry_run e1" "\<not> dry_run e2" "all_succeed (instagram e2)" "same_settings e1 e2"
  shows "comment_decision e1 today utc rid score text db =
           (fst (comment_decision e2 today utc rid score text db),
            fst (snd (comment_decision e2 today utc rid score text db)), [])"
  using assms do_comment_parity [OF assms(1-3), of utc rid "text" db]
  by (auto simp: comment_decision_def same_settings_def can_comment_def split: prod.splits)

lemma share_loop_parity:
  assumes "dry_run e1" "\<not> dry_run e2" "all_succeed (instagram e2)"
  shows "share_loop e1 today utc rid rcode fs db =
           (fst (share_loop e2 today utc rid rcode fs db),
            fst (snd (share_loop e2 today utc rid rcode fs db)), [])"
proof (induction fs arbitrary: db)
  case Nil
  show ?case by simp
next
  case (Cons f fs)
  show ?case
    using Cons.IH do_share_parity [OF assms, of today utc rid f rcode db]
    by (auto split: prod.splits)
qed

lemma share_decision_parity:
  assumes "dry_run e1" "\<not> dry_run e2" "all_succeed (instagram e2)" "same_settings e1 e2"
  shows "share_decision e1 today utc rid category rcode db =
           (fst (share_decision e2 today utc rid category rcode db),
            fst (snd (share_decision e2 today utc rid category rcode db)), [])"
  using assms(4) share_loop_parity [OF assms(1-3)]
  by (simp add: share_decision_def same_settings_def can_share_def find_matching_friends_def)

lemma process_engagement_parity:
  assumes "dry_run e1" "\<not> dry_run e2" "all_succeed (instagram e2)" "same_settings e1 e2"
  shows "process_engagement e1 today utc rid score category text rcode db =
           (fst (process_engagement e2 today utc rid score category text rcode db),
            fst (snd (process_engagement e2 today utc rid score category text rcode db)), [])"
proof -
  note a = like_decision_parity [OF assms] comment_decision_parity [OF assms]
    share_decision_parity [OF assms]
  show ?thesis
    unfolding process_engagement_def a by (simp split: prod.splits)
qed


lemma bookkeeping_simps:
  "bookkeeping (map Platform calls) = []"
  "bookkeeping (xs @ ys) = bookkeeping xs @ bookkeeping ys"
  "bookkeeping (Analyzed rid # xs) = Analyzed rid # bookkeeping xs"
  "bookkeeping (Saved rid acts # xs) = Saved rid acts # bookkeeping xs"
  "bookkeeping (Cooldown n # xs) = Cooldown n # bookkeeping xs"
  "bookkeeping (Skipped rid # xs) = Skipped rid # bookkeeping xs"
  "bookkeeping (DownloadFailed rid # xs) = DownloadFailed rid # bookkeeping xs"
  "bookkeeping (Wait # xs) = Wait # bookkeeping xs"
  "bookkeeping [] = []"
  by (simp_all add: bookkeeping_def filter_empty_conv)

lemma process_reel_parity:
  assumes "dry_run e1" "\<not> dry_run e2" "all_succeed (instagram e2)" "same_settings e1 e2"
  shows "process_reel e1 False cfg it v k db =
           (fst (process_reel e2 False cfg it v k db),
            fst (snd (process_reel e2 False cfg it v k db)),
            bookkeeping (snd (snd (process_reel e2 False cfg it v k db))))"
  unfolding process_reel_def process_engagement_parity [OF assms]
  by (simp add: Let_def bookkeeping_simps split: prod.splits)

lemma session_loop_parity:
  assumes "dry_run e1" "\<not> dry_run e2" "all_succeed (instagram e2)" "same_settings e1 e2"
  shows "session_loop e1 False cfg feed n k db =
           (fst (session_loop e2 False cfg feed n k db),
            bookkeeping (snd (session_loop e2 False cfg feed n k db)))"
proof (induction feed arbitrary: n k db)
  case Nil
  show ?case by (simp add: bookkeeping_simps)
next
  case (Cons it rest)
  show ?case
  proof (cases "stop_now it \<or> n \<ge> max_reels_per_session cfg")
    case True
    then show ?thesis by (auto simp: bookkeeping_simps)
  next
    case False
    note go = this
    show ?thesis
    proof (cases "reel_already_analyzed db (pk it)")
      case True
      with go show ?thesis using Cons.IH [of n k db]
        by (simp add: bookkeeping_simps split: prod.splits)
    next
      case False
      note fresh = this
      show ?thesis
      proof (cases "download it")
        case None
        with go fresh show ?thesis using Cons.IH [of n k db]
          by (simp add: bookkeeping_simps split: prod.splits)
      next
        case (Some v)
        obtain d2 k2 ev2 where r: "process_reel e2 False cfg it v k db = (d2, k2, ev2)"
          by (cases "process_reel e2 False cfg it v k db") auto
        have r1: "process_reel e1 False cfg it v k db = (d2, k2, bookkeeping ev2)"
          using process_reel_parity [OF assms, of cfg it v k db] r by simp
        from go fresh Some r r1 show ?thesis using Cons.IH [of "n + 1" k2 d2]
          by (simp add: bookkeeping_simps split: prod.splits)
      qed
    qed
  qed
qed

lemma run_session_parity:
  assumes "all_succeed ig_live"
  shows "run_session cfg True False ig fs login_ok feed db =
           (fst (run_session cfg False False ig_live fs login_ok feed db),
            bookkeeping (snd (run_session cfg False False ig_live fs login_ok feed db)))"
proof -
  let ?e1 = "fst (Engager ig db cfg fs True)"
  let ?e2 = "fst (Engager ig_live db cfg fs False)"
  have a: "dry_run ?e1" "\<not> dry_run ?e2" "all_succeed (instagram ?e2)" "same_settings ?e1 ?e2"
    using assms by (simp_all add: Engager_def same_settings_def)
  have b: "snd (Engager ig db cfg fs True) = snd (Engager ig_live db cfg fs False)"
    by (simp add: Engager_def)
  show ?thesis
    using session_loop_parity [OF a, of cfg feed 0 0 "sync_friends_to_db fs db"]
    by (simp add: run_session_def Engager_def bookkeeping_simps)
qed


lemma like_decision_dry:
  assumes "dry_run eng" "like_decision eng today utc rid score db = (actions, db', calls)"
  shows "\<exists>N. engagement_log db' = engagement_log db @ N \<and> (\<forall>e\<in>set N. success e)"
proof (cases "score \<ge> humor_threshold eng \<and> can_like eng today db")
  case False
  with assms(2) have "db' = db" by (auto simp: like_decision_def split: if_splits)
  then show ?thesis by simp
next
  case True
  obtain ok db1 c1 where d: "do_like eng utc rid db = (ok, db1, c1)"
    by (cases "do_like eng utc rid db") auto
  with assms(2) True have "db' = db1" by (auto simp: like_decision_def)
  with do_like_effect(1,4) [OF d] assms(1) show ?thesis by fastforce
qed

lemma comment_decision_dry:
  assumes "dry_run eng" "comment_decision eng today utc rid score txt db = (actions, db', calls)"
  shows "\<exists>N. engagement_log db' = engagement_log db @ N \<and> (\<forall>e\<in>set N. success e)"
proof (cases "score \<ge> comment_threshold eng \<and> truthy txt \<and> can_comment eng today db")
  case False
  with assms(2) have "db' = db" by (auto simp: comment_decision_def split: if_splits)
  then show ?thesis by simp
next
  case True
  obtain ok db1 c1 where d: "do_comment eng utc rid txt db = (ok, db1, c1)"
    by (cases "do_comment eng utc rid txt db") auto
  with assms(2) True have "db' = db1" by (auto simp: comment_decision_def)
  with do_comment_effect(1,4) [OF d] assms(1) show ?thesis by fastforce
qed

lemma share_loop_dry:
  assumes "dry_run eng"
  shows "share_loop eng today utc rid rcode fs db = (actions, db', calls) \<Longrightarrow>
         \<exists>N. engagement_log db' = engagement_log db @ N \<and> (\<forall>e\<in>set N. success e)"
proof (induction fs arbitrary: db actions db' calls)
  case Nil
  then show ?case by simp
next
  case (Cons f fs)
  show ?case
  proof (cases "can_share_to_friend today db f")
    case False
    with Cons.prems have "share_loop eng today utc rid rcode fs db = (actions, db', calls)" by simp
    from Cons.IH [OF this] show ?thesis .
  next
    case True
    obtain ok db1 c1 where d: "do_share eng today utc rid f rcode db = (ok, db1, c1)"
      by (cases "do_share eng today utc rid f rcode db") auto
    from do_share_effect(3) [OF d assms] have ok by simp
    with Cons.prems True d have "db' = db1" by auto
    with do_share_effect(1) [OF d] \<open>ok\<close> show ?thesis by fastforce
  qed
qed

lemma process_engagement_dry:
  assumes "dry_run eng"
    and "process_engagement eng today utc rid score category txt rcode db = (actions, db', calls)"
  shows "\<exists>N. engagement_log db' = engagement_log db @ N \<and> (\<forall>e\<in>set N. success e)"
proof -
  obtain a1 db1 c1 where p1: "like_decision eng today utc rid score db = (a1, db1, c1)"
    by (cases "like_decision eng today utc rid score db") auto
  obtain a2 db2 c2 where p2: "comment_decision eng today utc rid score txt db1 = (a2, db2, c2)"
    by (cases "comment_decision eng today utc rid score txt db1") auto
  obtain a3 db3 c3 where p3: "share_decision eng today utc rid category rcode db2 = (a3, db3, c3)"
    by (cases "share_decision eng today utc rid category rcode db2") auto
  from assms(2) p1 p2 p3 have r: "db' = db3" by (auto simp: process_engagement_def)
  from like_decision_dry [OF assms(1) p1] obtain N1 where
    n1: "engagement_log db1 = engagement_log db @ N1" "\<forall>e\<in>set N1. success e" by blast
  from comment_decision_dry [OF assms(1) p2] obtain N2 where
    n2: "engagement_log db2 = engagement_log db1 @ N2" "\<forall>e\<in>set N2. success e" by blast
  have "\<exists>N. engagement_log db3 = engagement_log db2 @ N \<and> (\<forall>e\<in>set N. success e)"
  proof (cases "can_share eng today db2")
    case True
    with p3 share_loop_dry [OF assms(1)] show ?thesis by (simp add: share_decision_def)
  next
    case False
    with p3 have "db3 = db2" by (simp add: share_decision_def)
    then show ?thesis by simp
  qed
  then obtain N3 where
    n3: "engagement_log db3 = engagement_log db2 @ N3" "\<forall>e\<in>set N3. success e" by blast
  have "engagement_log db' = engagement_log db @ (N1 @ N2 @ N3)" using r n1(1) n2(1) n3(1) by simp
  moreover have "\<forall>e\<in>set (N1 @ N2 @ N3). success e" using n1(2) n2(2) n3(2) by auto
  ultimately show ?thesis by blast
qed

lemma process_reel_dry:
  assumes "dry_run eng" and "process_reel eng ao cfg it v k db = (db2, k', evs0)"
  shows "\<exists>N. engagement_log db2 = engagement_log db @ N \<and> (\<forall>e\<in>set N. success e)"
proof (cases ao)
  case True
  with assms(2) have "engagement_log db2 = engagement_log db"
    by (auto simp: process_reel_def Let_def save_reel_analysis_def split: if_splits)
  then show ?thesis by simp
next
  case False
  let ?a = "analyze_reel v"
  obtain acts db1 calls where p: "process_engagement eng (clock_today it) (clock_utc it) (pk it)
      (a_humor_score ?a) (a_humor_category ?a) (a_suggested_comment ?a) (item_code it) db
      = (acts, db1, calls)"
    by (cases "process_engagement eng (clock_today it) (clock_utc it) (pk it)
      (a_humor_score ?a) (a_humor_category ?a) (a_suggested_comment ?a) (item_code it) db") auto
  with assms(2) False have "engagement_log db2 = engagement_log db1"
    by (auto simp: process_reel_def Let_def save_reel_analysis_def split: if_splits)
  with process_engagement_dry [OF assms(1) p] show ?thesis by simp
qed

lemma session_loop_dry:
  assumes "dry_run eng"
  shows "\<exists>N. engagement_log (fst (session_loop eng ao cfg feed n k db)) = engagement_log db @ N
             \<and> (\<forall>e\<in>set N. success e)"
proof (induction feed arbitrary: n k db)
  case Nil
  show ?case by simp
next
  case (Cons it rest)
  show ?case
  proof (cases "stop_now it \<or> n \<ge> max_reels_per_session cfg")
    case True
    then show ?thesis by auto
  next
    case False
    note go = this
    show ?thesis
    proof (cases "reel_already_analyzed db (pk it) \<or> download it = None")
      case True
      with go show ?thesis using Cons.IH [of n k db]
        by (auto split: prod.splits)
    next
      case False
      then obtain v where v: "download it = Some v" by auto
      obtain d2 k2 ev2 where r: "process_reel eng ao cfg it v k db = (d2, k2, ev2)"
        by (cases "process_reel eng ao cfg it v k db") auto
      from process_reel_dry [OF assms r] obtain N1 where
        n1: "engagement_log d2 = engagement_log db @ N1" "\<forall>e\<in>set N1. success e" by blast
      from Cons.IH [of "n + 1" k2 d2] obtain N2 where
        n2: "engagement_log (fst (session_loop eng ao cfg rest (n + 1) k2 d2))
               = engagement_log d2 @ N2" "\<forall>e\<in>set N2. success e" by blast
      have "fst (session_loop eng ao cfg (it # rest) n k db)
              = fst (session_loop eng ao cfg rest (n + 1) k2 d2)"
        using go False v r by (simp split: prod.splits)
      then have "engagement_log (fst (session_loop eng ao cfg (it # rest) n k db))
              = engagement_log db @ (N1 @ N2)" using n1(1) n2(1) by simp
      moreover have "\<forall>e\<in>set (N1 @ N2). success e" using n1(2) n2(2) by auto
      ultimately show ?thesis by blast
    qed
  qed
qed

text \<open>
  C6. Take a live session whose platform client succeeds on every action, and the
  simulate-only session on the same configuration, recipients, feed and store (with any
  platform client). The two end in the same database: the same engagement rows in the same
  order, the same recipient counters, the same analysed reels. The simulate-only session does
  what the live one does except for the platform calls, of which it makes none, and every
  engagement row it writes is a success.
\<close>

theorem dry_run_parity:
  assumes "all_succeed ig_live"
  shows "fst (run_session cfg True False ig fs login_ok feed db)
           = fst (run_session cfg False False ig_live fs login_ok feed db)
    \<and> snd (run_session cfg True False ig fs login_ok feed db)
           = bookkeeping (snd (run_session cfg False False ig_live fs login_ok feed db))
    \<and> filter is_platform (snd (run_session cfg True False ig fs login_ok feed db)) = []
    \<and> (\<forall>e\<in>set (new_records db (fst (run_session cfg True False ig fs login_ok feed db))).
          success e)"
proof -
  let ?dry = "run_session cfg True False ig fs login_ok feed db"
  let ?live = "run_session cfg False False ig_live fs login_ok feed db"
  have p: "?dry = (fst ?live, bookkeeping (snd ?live))"
    using run_session_parity [OF assms] .
  have 1: "fst ?dry = fst ?live" "snd ?dry = bookkeeping (snd ?live)" using p by simp_all
  have 2: "filter is_platform (snd ?dry) = []"
    unfolding 1 by (simp add: bookkeeping_def filter_empty_conv)
  let ?eng = "fst (Engager ig db cfg fs True)"
  let ?db0 = "sync_friends_to_db fs db"
  have dr: "dry_run ?eng" by (simp add: Engager_def)
  have l0: "engagement_log ?db0 = engagement_log db"
    by (simp add: sync_friends_to_db_def Let_def)
  have "\<exists>N. engagement_log (fst ?dry) = engagement_log db @ N \<and> (\<forall>e\<in>set N. success e)"
  proof (cases login_ok)
    case True
    then have "fst ?dry = fst (session_loop ?eng False cfg feed 0 0 ?db0)"
      by (simp add: run_session_def Engager_def)
    with session_loop_dry [OF dr, of False cfg feed 0 0 ?db0] l0 show ?thesis by simp
  next
    case False
    then have "fst ?dry = ?db0" by (simp add: run_session_def Engager_def)
    with l0 show ?thesis by simp
  qed
  then obtain N where n: "engagement_log (fst ?dry) = engagement_log db @ N"
    "\<forall>e\<in>set N. success e" by blast
  have 3: "\<forall>e\<in>set (new_records db (fst ?dry)). success e"
    using new_records_append [OF n(1)] n(2) by simp
  from 1 2 3 show ?thesis by blast
qed

theorem dry_run_parity_witness:
  "all_succeed ig_ok
   \<and> fst (run_session cfg0 True False ig_down [ann, bob] True
            [item ''r1'' (Some funny), item ''r2'' (Some funny)] empty_db)
       = fst (run_session cfg0 False False ig_ok [ann, bob] True
            [item ''r1'' (Some funny), item ''r2'' (Some funny)] empty_db)
   \<and> filter is_platform (snd (run_session cfg0 True False ig_down [ann, bob] True
            [item ''r1'' (Some funny), item ''r2'' (Some funny)] empty_db)) = []"
proof -
  have h: "all_succeed ig_ok" by (simp add: all_succeed_def ig_ok_def)
  from dry_run_parity [OF h, of cfg0 ig_down "[ann, bob]" True
      "[item ''r1'' (Some funny), item ''r2'' (Some funny)]" empty_db] h
  show ?thesis by blast
qed

section \<open>The session loop\<close>

lemma ids_simps:
  "analyzed_ids [] = []" "analyzed_ids (xs @ ys) = analyzed_ids xs @ analyzed_ids ys"
  "analyzed_ids (map Platform calls) = []"
  "analyzed_ids (e # xs) = analyzed_of e @ analyzed_ids xs"
  "saved_ids [] = []" "saved_ids (xs @ ys) = saved_ids xs @ saved_ids ys"
  "saved_ids (map Platform calls) = []"
  "saved_ids (e # xs) = saved_of e @ saved_ids xs"
  by (simp_all add: analyzed_ids_def saved_ids_def)

lemma count_simps:
  "total_actions [] = 0" "total_actions (xs @ ys) = total_actions xs + total_actions ys"
  "total_actions (map Platform calls) = 0"
  "total_actions (e # xs) = actions_of e + total_actions xs"
  "cooldowns [] = 0" "cooldowns (xs @ ys) = cooldowns xs + cooldowns ys"
  "cooldowns (map Platform calls) = 0"
  "cooldowns (e # xs) = (if is_cooldown e then 1 else 0) + cooldowns xs"
  by (simp_all add: total_actions_def cooldowns_def)

lemma process_engagement_actions_le:
  assumes "process_engagement eng today utc rid score category txt rcode db = (actions, db', calls)"
  shows "length actions \<le> 3"
proof -
  from process_engagement_effect(1) [OF assms] obtain L C S :: "engagement list" where
    e: "length L = (if score \<ge> humor_threshold eng \<and> can_like eng today db then 1 else 0)"
       "length C = (if score \<ge> comment_threshold eng \<and> truthy txt
                       \<and> can_comment eng today db then 1 else 0)"
       "length (filter success S) \<le> 1"
       "length actions = length (filter success (L @ C @ S))"
    by blast
  have "length (filter success L) \<le> length L" "length (filter success C) \<le> length C"
    by simp_all
  with e show ?thesis by (simp split: if_splits)
qed

lemma process_reel_effect:
  assumes "process_reel eng ao cfg it v k db = (db2, k', evs0)"
  shows "analyzed_ids evs0 = [pk it]" and "saved_ids evs0 = [pk it]"
    and "\<exists>row. reels_analyzed db2 = (reels_analyzed db)(pk it \<mapsto> row)
           \<and> humor_score row = a_humor_score (analyze_reel v)
           \<and> humor_category row = a_humor_category (analyze_reel v)
           \<and> humor_explanation row = a_explanation (analyze_reel v)
           \<and> transcript row = a_transcript (analyze_reel v)"
    and "total_actions evs0 \<le> 3"
    and "cooldowns evs0 = (if k + int (total_actions evs0) \<ge> cooldown_after_actions cfg then 1 else 0)"
    and "k' = (if k + int (total_actions evs0) \<ge> cooldown_after_actions cfg then 0
               else k + int (total_actions evs0))"
proof -
  let ?a = "analyze_reel v"
  let ?p = "if ao then ([], db, [])
            else process_engagement eng (clock_today it) (clock_utc it) (pk it) (a_humor_score ?a)
                   (a_humor_category ?a) (a_suggested_comment ?a) (item_code it) db"
  obtain acts db1 calls where p: "?p = (acts, db1, calls)" by (cases ?p) auto
  have ra: "reels_analyzed db1 = reels_analyzed db"
    using p process_engagement_effect(2) by (auto split: if_splits)
  have le: "length acts \<le> 3"
    using p process_engagement_actions_le by (auto split: if_splits)
  let ?since = "if acts \<noteq> [] then k + int (length acts) else k"
  have since: "?since = k + int (length acts)" by simp
  let ?row = "\<lparr>row_timestamp = clock_utc it, reel_code = item_code it,
                        username = creator it, caption = caption_text it,
                        humor_score = a_humor_score ?a,
                        humor_category = a_humor_category ?a,
                        humor_explanation = a_explanation ?a,
                        transcript = a_transcript ?a,
                        action_taken = (if acts \<noteq> [] then join '','' acts else ''none''),
                        thumbnail_url = thumbnail it\<rparr>"
  have r: "(db2, k', evs0) =
       (if ?since \<ge> cooldown_after_actions cfg
        then (save_reel_analysis db1 (pk it) ?row, 0, Analyzed (pk it) # map Platform calls
                  @ [Saved (pk it) acts, Cooldown (cooldown_duration_seconds cfg)])
        else (save_reel_analysis db1 (pk it) ?row, ?since, Analyzed (pk it) # map Platform calls
                  @ [Saved (pk it) acts]))"
    using assms p unfolding process_reel_def Let_def by (simp only: split)
  have db2: "db2 = save_reel_analysis db1 (pk it) ?row" using r by (simp split: if_splits)
  have ta: "total_actions evs0 = length acts"
    using r by (auto simp: count_simps split: if_splits)
  show "analyzed_ids evs0 = [pk it]" "saved_ids evs0 = [pk it]"
    using r by (auto simp: ids_simps split: if_splits)
  show "total_actions evs0 \<le> 3" using ta le by simp
  show "cooldowns evs0 = (if k + int (total_actions evs0) \<ge> cooldown_after_actions cfg then 1 else 0)"
    unfolding ta using r since by (auto simp: count_simps split: if_splits)
  show "k' = (if k + int (total_actions evs0) \<ge> cooldown_after_actions cfg then 0
               else k + int (total_actions evs0))"
    unfolding ta using r since by (auto split: if_splits)
  have "reels_analyzed db2 = (reels_analyzed db)(pk it \<mapsto> ?row)"
    unfolding db2 using ra by (simp add: save_reel_analysis_def)
  then show "\<exists>row. reels_analyzed db2 = (reels_analyzed db)(pk it \<mapsto> row)
           \<and> humor_score row = a_humor_score (analyze_reel v)
           \<and> humor_category row = a_humor_category (analyze_reel v)
           \<and> humor_explanation row = a_explanation (analyze_reel v)
           \<and> transcript row = a_transcript (analyze_reel v)"
    by (intro exI [of _ ?row]) simp
qed


lemma session_loop_analyzed:
  "session_loop eng ao cfg feed n k db = (db', evs) \<Longrightarrow>
     distinct (analyzed_ids evs)
     \<and> saved_ids evs = analyzed_ids evs
     \<and> (\<forall>i\<in>set (analyzed_ids evs). reels_analyzed db i = None \<and> reels_analyzed db' i \<noteq> None)
     \<and> (\<forall>i. reels_analyzed db i \<noteq> None \<longrightarrow> reels_analyzed db' i = reels_analyzed db i)"
proof (induction feed arbitrary: n k db db' evs)
  case Nil
  then show ?case by (simp add: ids_simps)
next
  case (Cons it rest)
  show ?case
  proof (cases "stop_now it \<or> n \<ge> max_reels_per_session cfg")
    case True
    with Cons.prems have "db' = db" "evs = []" by (auto split: if_splits)
    then show ?thesis by (simp add: ids_simps)
  next
    case False
    note go = this
    show ?thesis
    proof (cases "reel_already_analyzed db (pk it)")
      case True
      obtain d e where l: "session_loop eng ao cfg rest n k db = (d, e)"
        by (cases "session_loop eng ao cfg rest n k db") auto
      with Cons.prems go True have "db' = d" "evs = Skipped (pk it) # e" by auto
      with Cons.IH [OF l] show ?thesis by (simp add: ids_simps)
    next
      case False
      note fresh = this
      show ?thesis
      proof (cases "download it")
        case None
        obtain d e where l: "session_loop eng ao cfg rest n k db = (d, e)"
          by (cases "session_loop eng ao cfg rest n k db") auto
        with Cons.prems go fresh None have "db' = d" "evs = DownloadFailed (pk it) # e" by auto
        with Cons.IH [OF l] show ?thesis by (simp add: ids_simps)
      next
        case (Some v)
        obtain d2 k2 ev2 where r: "process_reel eng ao cfg it v k db = (d2, k2, ev2)"
          by (cases "process_reel eng ao cfg it v k db") auto
        obtain d e where l: "session_loop eng ao cfg rest (n + 1) k2 d2 = (d, e)"
          by (cases "session_loop eng ao cfg rest (n + 1) k2 d2") auto
        from Cons.prems go fresh Some r l have res: "db' = d" "evs = ev2 @ Wait # e" by auto
        from process_reel_effect(3) [OF r] obtain row where
          row: "reels_analyzed d2 = (reels_analyzed db)(pk it \<mapsto> row)" by blast
        have ids: "analyzed_ids evs = pk it # analyzed_ids e" "saved_ids evs = pk it # saved_ids e"
          using res process_reel_effect(1,2) [OF r] by (simp_all add: ids_simps)
        have none: "reels_analyzed db (pk it) = None"
          using fresh by (simp add: reel_already_analyzed_def)
        from Cons.IH [OF l] have ih:
          "distinct (analyzed_ids e)" "saved_ids e = analyzed_ids e"
          "\<forall>i\<in>set (analyzed_ids e). reels_analyzed d2 i = None \<and> reels_analyzed d i \<noteq> None"
          "\<forall>i. reels_analyzed d2 i \<noteq> None \<longrightarrow> reels_analyzed d i = reels_analyzed d2 i"
          by blast+
        have a: "pk it \<notin> set (analyzed_ids e)" using ih(3) row by auto
        have b: "\<forall>i\<in>set (analyzed_ids e). reels_analyzed db i = None"
          using ih(3) row by (auto split: if_splits)
        have c: "reels_analyzed d (pk it) \<noteq> None" using ih(4) row by simp
        have dd: "\<forall>i. reels_analyzed db i \<noteq> None \<longrightarrow> reels_analyzed d i = reels_analyzed db i"
          using ih(4) row none by (metis fun_upd_apply)
        show ?thesis unfolding ids res(1) using ih(1,2,3) a b c dd none by simp
      qed
    qed
  qed
qed

lemma session_loop_cooldowns:
  assumes N: "0 < cooldown_after_actions cfg"
  shows "session_loop eng ao cfg feed n k db = (db', evs) \<Longrightarrow> 0 \<le> k
         \<Longrightarrow> k < cooldown_after_actions cfg \<Longrightarrow>
     cooldown_after_actions cfg * int (cooldowns evs) \<le> k + int (total_actions evs)
     \<and> k + int (total_actions evs)
           < (int (cooldowns evs) + 1) * (cooldown_after_actions cfg + 2)"
proof (induction feed arbitrary: n k db db' evs)
  case Nil
  then show ?case using N by (simp add: count_simps)
next
  case (Cons it rest)
  let ?N = "cooldown_after_actions cfg"
  show ?case
  proof (cases "stop_now it \<or> n \<ge> max_reels_per_session cfg")
    case True
    with Cons.prems have "evs = []" by (auto split: if_splits)
    then show ?thesis using N Cons.prems(2,3) by (simp add: count_simps)
  next
    case False
    note go = this
    show ?thesis
    proof (cases "reel_already_analyzed db (pk it)")
      case True
      obtain d e where l: "session_loop eng ao cfg rest n k db = (d, e)"
        by (cases "session_loop eng ao cfg rest n k db") auto
      with Cons.prems go True have "evs = Skipped (pk it) # e" by auto
      with Cons.IH [OF l Cons.prems(2,3)] show ?thesis by (simp add: count_simps)
    next
      case False
      note fresh = this
      show ?thesis
      proof (cases "download it")
        case None
        obtain d e where l: "session_loop eng ao cfg rest n k db = (d, e)"
          by (cases "session_loop eng ao cfg rest n k db") auto
        with Cons.prems go fresh None have "evs = DownloadFailed (pk it) # e" by auto
        with Cons.IH [OF l Cons.prems(2,3)] show ?thesis by (simp add: count_simps)
      next
        case (Some v)
        obtain d2 k2 ev2 where r: "process_reel eng ao cfg it v k db = (d2, k2, ev2)"
          by (cases "process_reel eng ao cfg it v k db") auto
        obtain d e where l: "session_loop eng ao cfg rest (n + 1) k2 d2 = (d, e)"
          by (cases "session_loop eng ao cfg rest (n + 1) k2 d2") auto
        from Cons.prems go fresh Some r l have res: "evs = ev2 @ Wait # e" by auto
        let ?t = "int (total_actions ev2)"
        note pe = process_reel_effect(4,5,6) [OF r]
        have t3: "?t \<le> 3" using pe(1) by simp
        have t0: "0 \<le> ?t" by simp
        have tot: "int (total_actions evs) = ?t + int (total_actions e)"
          "int (cooldowns evs) = int (cooldowns ev2) + int (cooldowns e)"
          unfolding res by (simp_all add: count_simps)
        show ?thesis
        proof (cases "k + ?t \<ge> ?N")
          case True
          with pe have c: "cooldowns ev2 = 1" "k2 = 0" by simp_all
          from Cons.IH [OF l] c N have ih:
            "?N * int (cooldowns e) \<le> int (total_actions e)"
            "int (total_actions e) < (int (cooldowns e) + 1) * (?N + 2)" by simp_all
          have up: "k + ?t \<le> ?N + 2" using Cons.prems(3) t3 by linarith
          have "?N * (1 + int (cooldowns e)) \<le> k + (?t + int (total_actions e))"
            using ih(1) True by (simp add: algebra_simps)
          moreover have "k + (?t + int (total_actions e))
                           < (1 + int (cooldowns e) + 1) * (?N + 2)"
            using ih(2) up by (simp add: algebra_simps)
          ultimately show ?thesis unfolding tot c by simp
        next
          case False
          with pe have c: "cooldowns ev2 = 0" "k2 = k + ?t" by simp_all
          have "0 \<le> k2" "k2 < ?N" using c False Cons.prems(2) by simp_all
          from Cons.IH [OF l this] c show ?thesis unfolding tot by (simp add: algebra_simps)
        qed
      qed
    qed
  qed
qed


lemma run_session_loop:
  "run_session cfg dry ao ig fs login_ok feed db =
     (if login_ok
      then session_loop (fst (Engager ig db cfg fs (dry \<or> ao))) ao cfg feed 0 0
             (sync_friends_to_db fs db)
      else (sync_friends_to_db fs db, []))"
  by (simp add: run_session_def Engager_def)

lemma sync_reels_analyzed:
  "reels_analyzed (sync_friends_to_db fs db) = reels_analyzed db"
  by (simp add: sync_friends_to_db_def Let_def)


section \<open>No double analysis\<close>

text \<open>
  C4. In one session the analyzer is called at most once per identifier and the analysis is
  saved at most once per identifier, however often the feed presents it; an identifier that is
  in the store when the session starts is never analysed.
\<close>

theorem no_double_analysis:
  assumes "run_session cfg dry ao ig fs login_ok feed db = (db', evs)"
  shows "distinct (analyzed_ids evs) \<and> distinct (saved_ids evs)
    \<and> (\<forall>i\<in>set (analyzed_ids evs). \<not> reel_already_analyzed db i)"
proof (cases login_ok)
  case False
  with assms have "evs = []" by (simp add: run_session_loop)
  then show ?thesis by (simp add: ids_simps)
next
  case True
  with assms have "session_loop (fst (Engager ig db cfg fs (dry \<or> ao))) ao cfg feed 0 0
             (sync_friends_to_db fs db) = (db', evs)" by (simp add: run_session_loop)
  from session_loop_analyzed [OF this] show ?thesis
    by (simp add: sync_reels_analyzed reel_already_analyzed_def)
qed

theorem no_double_analysis_witness:
  "distinct (analyzed_ids (snd (run_session cfg0 True False ig_ok [ann, bob] True
      [item ''r1'' (Some funny), item ''r2'' (Some funny), item ''r1'' (Some funny)] empty_db)))
   \<and> length (analyzed_ids (snd (run_session cfg0 True False ig_ok [ann, bob] True
      [item ''r1'' (Some funny), item ''r2'' (Some funny), item ''r1'' (Some funny)] empty_db)))
       = 2"
proof -
  let ?r = "run_session cfg0 True False ig_ok [ann, bob] True
      [item ''r1'' (Some funny), item ''r2'' (Some funny), item ''r1'' (Some funny)] empty_db"
  have h: "?r = (fst ?r, snd ?r)" by simp
  have l: "length (analyzed_ids (snd ?r)) = 2" by code_simp
  from no_double_analysis [OF h] l show ?thesis by blast
qed


section \<open>Failed analysis\<close>

text \<open>
  C8, as stated: when the analysis fails, the result is the neutral one, with score 0,
  category unknown, empty explanation, empty suggested comment and empty transcript. It fails
  on the transcript: the transcription runs, and is stored in the result, before the
  completion is requested, so a completion that raises leaves a result that is not the neutral
  one.
\<close>

theorem neutral_result_counterexample:
  "analysis_failed api_down \<and> analyze_reel api_down \<noteq> neutral
   \<and> a_transcript (analyze_reel api_down) = ''hello''"
  by (simp add: analysis_failed_def api_down_def analyze_reel_def neutral_def)

text \<open>
  One way of failing is not by design: a suggested comment that is not a string raises only
  after score, category, explanation and comment have been stored, and the result returned is
  the stored one, not the defaults. On such an answer, with score 9 and the number 5 as the
  comment, the analysis returns score 9 and the decision pass likes the item and comments
  on it.
\<close>

lemma analyze_reel_half_filled:
  "analysis_failed numeric_comment \<and> failed_after_storing numeric_comment
   \<and> a_humor_score (analyze_reel numeric_comment) = 9
   \<and> a_suggested_comment (analyze_reel numeric_comment) = PyNum 5
   \<and> fst (process_engagement (eng0 ig_ok True) ''2024-05-01'' ''2024-05-01'' ''r1''
            (a_humor_score (analyze_reel numeric_comment))
            (a_humor_category (analyze_reel numeric_comment))
            (a_suggested_comment (analyze_reel numeric_comment)) ''C'' empty_db)
       = [''like'', ''comment'']"
  by code_simp

lemma analyze_reel_failed:
  assumes "analysis_failed v" and "\<not> failed_after_storing v"
  shows "analyze_reel v
           = neutral\<lparr>a_transcript := (if frames v = 0 then [] else audio_transcript v)\<rparr>"
proof (cases "frames v = 0")
  case True
  then show ?thesis by (simp add: analyze_reel_def neutral_def)
next
  case False
  note fr = this
  show ?thesis
  proof (cases "api_response v")
    case (Parsed p)
    with assms fr have "p_humor_score p = Some NotNumeric"
      by (auto simp: analysis_failed_def failed_after_storing_def)
    with Parsed fr show ?thesis
      by (simp add: analyze_reel_def neutral_def py_float_def)
  qed (use fr in \<open>simp_all add: analyze_reel_def neutral_def\<close>)
qed

text \<open>
  C8, amended: when the analysis fails (the analyzer errors or returns malformed output)
  before any parsed field has been stored in the result, the result has score 0, category
  unknown, an empty explanation and an empty suggested comment; its transcript is empty when
  no frame could be extracted and is the audio transcript otherwise. The item is persisted
  with that result, so that it counts as analysed: for the rest of the session it is not
  analysed again and its row is not overwritten. Nothing is said here of the failure that is
  raised after the parsed fields were stored.
\<close>

theorem failed_analysis_neutral:
  assumes "analysis_failed v" and "\<not> failed_after_storing v"
    and "process_reel eng ao cfg it v k db = (db2, k', evs0)"
  shows "analyze_reel v
           = neutral\<lparr>a_transcript := (if frames v = 0 then [] else audio_transcript v)\<rparr>
    \<and> (\<exists>row. reels_analyzed db2 (pk it) = Some row \<and> humor_score row = 0
          \<and> humor_category row = ''unknown'' \<and> humor_explanation row = []
          \<and> transcript row = (if frames v = 0 then [] else audio_transcript v))
    \<and> reel_already_analyzed db2 (pk it)
    \<and> pk it \<notin> set (analyzed_ids (snd (session_loop eng ao cfg rest n k' db2)))
    \<and> reels_analyzed (fst (session_loop eng ao cfg rest n k' db2)) (pk it)
         = reels_analyzed db2 (pk it)"
proof -
  note a = analyze_reel_failed [OF assms(1,2)]
  from process_reel_effect(3) [OF assms(3)] obtain row where
    row: "reels_analyzed db2 = (reels_analyzed db)(pk it \<mapsto> row)"
      "humor_score row = a_humor_score (analyze_reel v)"
      "humor_category row = a_humor_category (analyze_reel v)"
      "humor_explanation row = a_explanation (analyze_reel v)"
      "transcript row = a_transcript (analyze_reel v)" by blast
  have r: "reels_analyzed db2 (pk it) = Some row \<and> humor_score row = 0
          \<and> humor_category row = ''unknown'' \<and> humor_explanation row = []
          \<and> transcript row = (if frames v = 0 then [] else audio_transcript v)"
    using row unfolding a by (simp add: neutral_def)
  have s: "reel_already_analyzed db2 (pk it)" using r by (simp add: reel_already_analyzed_def)
  let ?l = "session_loop eng ao cfg rest n k' db2"
  have h: "?l = (fst ?l, snd ?l)" by simp
  from session_loop_analyzed [OF h] r
  have "pk it \<notin> set (analyzed_ids (snd ?l))"
    "reels_analyzed (fst ?l) (pk it) = reels_analyzed db2 (pk it)" by auto
  with a r s show ?thesis by blast
qed

theorem failed_analysis_neutral_witness:
  "analysis_failed api_down \<and> \<not> failed_after_storing api_down
   \<and> reel_already_analyzed
       (fst (process_reel (eng0 ig_ok True) False cfg0 (item ''r1'' (Some api_down)) api_down 0
               empty_db)) ''r1''"
proof -
  let ?r = "process_reel (eng0 ig_ok True) False cfg0 (item ''r1'' (Some api_down)) api_down 0
               empty_db"
  have f: "analysis_failed api_down" by (simp add: analysis_failed_def api_down_def)
  have g: "\<not> failed_after_storing api_down"
    by (simp add: failed_after_storing_def api_down_def)
  have h: "?r = (fst ?r, fst (snd ?r), snd (snd ?r))" by simp
  have p: "pk (item ''r1'' (Some api_down)) = ''r1''" by (simp add: item_def)
  from failed_analysis_neutral [OF f g h] f g p show ?thesis by simp
qed


section \<open>Cooldown\<close>

text \<open>
  C9, as stated: the session pauses exactly once per every N cumulative successful actions,
  that is, the number of pauses is the number of successful actions divided by N. It fails:
  with N = 2 and two items of three successful actions each, the count is 3 after the first
  item, the session pauses and drops the count to zero, and again after the second item: two
  pauses for six actions.
\<close>

theorem cooldown_every_n_counterexample:
  "int (cooldowns (snd (run_session cfg0 True False ig_ok [ann, bob] True
        [item ''r1'' (Some funny), item ''r2'' (Some funny)] empty_db)))
   \<noteq> int (total_actions (snd (run_session cfg0 True False ig_ok [ann, bob] True
        [item ''r1'' (Some funny), item ''r2'' (Some funny)] empty_db)))
       div cooldown_after_actions cfg0"
  by code_simp

text \<open>
  C9, amended: the session keeps a running count of successful actions since the last
  cooldown; after an item is saved, with its successful actions added to the count, it pauses
  once if the count has reached N or more, and then sets the count to zero, dropping what
  exceeds N. For N > 0 every pause thus stands for at least N and at most N + 2 successful
  actions: N times the number of pauses is at most the number of successful actions, which is
  less than (pauses + 1) times (N + 2).
\<close>

theorem cooldown_periodicity:
  assumes "0 < cooldown_after_actions cfg"
    and "run_session cfg dry ao ig fs login_ok feed db = (db', evs)"
  shows "cooldown_after_actions cfg * int (cooldowns evs) \<le> int (total_actions evs)
    \<and> int (total_actions evs) < (int (cooldowns evs) + 1) * (cooldown_after_actions cfg + 2)
    \<and> cooldowns (snd (snd (process_reel eng ao cfg it v k db0)))
        = (if k + int (total_actions (snd (snd (process_reel eng ao cfg it v k db0))))
                \<ge> cooldown_after_actions cfg then 1 else 0)
    \<and> fst (snd (process_reel eng ao cfg it v k db0))
        = (if k + int (total_actions (snd (snd (process_reel eng ao cfg it v k db0))))
                \<ge> cooldown_after_actions cfg then 0
           else k + int (total_actions (snd (snd (process_reel eng ao cfg it v k db0)))))"
proof -
  let ?p = "process_reel eng ao cfg it v k db0"
  have h: "?p = (fst ?p, fst (snd ?p), snd (snd ?p))" by simp
  note m = process_reel_effect(5,6) [OF h]
  have b: "cooldown_after_actions cfg * int (cooldowns evs) \<le> int (total_actions evs)
    \<and> int (total_actions evs) < (int (cooldowns evs) + 1) * (cooldown_after_actions cfg + 2)"
  proof (cases login_ok)
    case False
    with assms have "evs = []" by (simp add: run_session_loop)
    with assms(1) show ?thesis by (simp add: count_simps)
  next
    case True
    with assms(2) have "session_loop (fst (Engager ig db cfg fs (dry \<or> ao))) ao cfg feed 0 0
             (sync_friends_to_db fs db) = (db', evs)" by (simp add: run_session_loop)
    from session_loop_cooldowns [OF assms(1) this] assms(1) show ?thesis by simp
  qed
  from b m show ?thesis by blast
qed

theorem cooldown_periodicity_witness:
  "0 < cooldown_after_actions cfg0
   \<and> cooldown_after_actions cfg0 * int (cooldowns (snd (run_session cfg0 True False ig_ok
        [ann, bob] True [item ''r1'' (Some funny), item ''r2'' (Some funny)] empty_db)))
      \<le> int (total_actions (snd (run_session cfg0 True False ig_ok
        [ann, bob] True [item ''r1'' (Some funny), item ''r2'' (Some funny)] empty_db)))"
proof -
  let ?r = "run_session cfg0 True False ig_ok
        [ann, bob] True [item ''r1'' (Some funny), item ''r2'' (Some funny)] empty_db"
  have n: "0 < cooldown_after_actions cfg0" by (simp add: cfg0_def)
  have h: "?r = (fst ?r, snd ?r)" by simp
  from cooldown_periodicity [OF n h] n show ?thesis by blast
qed

section \<open>The caps over a session\<close>

lemma within_friend_caps_distinct:
  assumes "distinct (map friend_name fs)" "within_friend_caps fs db"
    and "f \<in> set fs" "friend_shares db (friend_name f, d) = Some c"
  shows "c \<le> friend_max_shares_per_day f"
proof -
  have "friend_name f \<in> set (map friend_name fs)" using assms(3) by simp
  with assms(2,4) have "\<exists>g\<in>set fs. friend_name g = friend_name f
                           \<and> c \<le> friend_max_shares_per_day g"
    unfolding within_friend_caps_def by blast
  then obtain g where g: "g \<in> set fs" "friend_name g = friend_name f"
    "c \<le> friend_max_shares_per_day g" by blast
  from assms(1) have "inj_on friend_name (set fs)" by (simp add: distinct_map)
  from inj_onD [OF this g(2) g(1) assms(3)] have "g = f" .
  with g(3) show ?thesis by simp
qed



lemma process_reel_tables:
  assumes "process_reel eng ao cfg it v k db = (db2, k', evs0)"
  shows "ao \<Longrightarrow> engagement_log db2 = engagement_log db \<and> friend_shares db2 = friend_shares db"
    and "\<not> ao \<Longrightarrow> \<exists>actions db1 calls.
           process_engagement eng (clock_today it) (clock_utc it) (pk it) (a_humor_score (analyze_reel v))
             (a_humor_category (analyze_reel v)) (a_suggested_comment (analyze_reel v))
             (item_code it) db = (actions, db1, calls)
           \<and> engagement_log db2 = engagement_log db1 \<and> friend_shares db2 = friend_shares db1"
proof -
  let ?a = "analyze_reel v"
  let ?p = "if ao then ([], db, [])
            else process_engagement eng (clock_today it) (clock_utc it) (pk it) (a_humor_score ?a)
                   (a_humor_category ?a) (a_suggested_comment ?a) (item_code it) db"
  obtain acts db1 calls where p: "?p = (acts, db1, calls)" by (cases ?p) auto
  have "\<exists>row. db2 = save_reel_analysis db1 (pk it) row"
    using assms p unfolding process_reel_def Let_def
    by (simp only: split) (auto split: if_splits)
  then have t: "engagement_log db2 = engagement_log db1" "friend_shares db2 = friend_shares db1"
    by (auto simp: save_reel_analysis_def)
  show "ao \<Longrightarrow> engagement_log db2 = engagement_log db \<and> friend_shares db2 = friend_shares db"
    using p t by simp
  show "\<not> ao \<Longrightarrow> \<exists>actions db1 calls.
           process_engagement eng (clock_today it) (clock_utc it) (pk it) (a_humor_score (analyze_reel v))
             (a_humor_category (analyze_reel v)) (a_suggested_comment (analyze_reel v))
             (item_code it) db = (actions, db1, calls)
           \<and> engagement_log db2 = engagement_log db1 \<and> friend_shares db2 = friend_shares db1"
    using p t by simp
qed




lemma within_daily_caps_cong:
  "engagement_log db' = engagement_log db \<Longrightarrow>
   within_daily_caps eng db' = within_daily_caps eng db"
  by (simp add: within_daily_caps_def count_today_def)

lemma within_friend_caps_cong:
  "friend_shares db' = friend_shares db \<Longrightarrow>
   within_friend_caps fs db' = within_friend_caps fs db"
  by (simp add: within_friend_caps_def)

lemma within_friend_caps_step:
  assumes caps: "within_friend_caps (friends eng) db"
    and p: "process_engagement eng today utc rid score category txt rcode db = (actions, db', calls)"
  shows "within_friend_caps (friends eng) db'"
    and "\<forall>e\<in>set (attempts Share (new_records db db')).
           \<exists>f\<in>set (friends eng). friend_username e = Some (friend_name f)
              \<and> get_friend_share_count_today db today (friend_name f) < friend_max_shares_per_day f"
    and "filter success (attempts Share (new_records db db')) = []
           \<longrightarrow> friend_shares db' = friend_shares db"
proof -
  from process_engagement_effect(1) [OF p] obtain L C S where
    e: "engagement_log db' = engagement_log db @ L @ C @ S"
       "\<forall>e\<in>set L. action_type e = Like \<and> reel_id e = rid \<and> timestamp e = utc"
       "\<forall>e\<in>set C. action_type e = Comment \<and> reel_id e = rid \<and> timestamp e = utc"
       "\<forall>e\<in>set S. action_type e = Share \<and> reel_id e = rid \<and> timestamp e = utc"
       "map friend_username S = map (\<lambda>f. Some (friend_name f))
              (take (length S) (eligible_friends eng today category db))"
       "(filter success S = [] \<and> friend_shares db' = friend_shares db)
         \<or> (filter success S \<noteq> []
            \<and> (\<exists>f\<in>set (friends eng). can_share_to_friend today db f
              \<and> friend_shares db' = (friend_shares db)((friend_name f, today) \<mapsto>
                   get_friend_share_count_today db today (friend_name f) + 1)))"
    by blast
  have n: "new_records db db' = L @ C @ S" using new_records_append [OF e(1)] .
  have k: "\<forall>e\<in>set L. action_type e = Like" "\<forall>e\<in>set C. action_type e = Comment"
    "\<forall>e\<in>set S. action_type e = Share" using e(2,3,4) by simp_all
  have dec: "attempts Share (new_records db db') = S"
    unfolding n using attempts_decompose(3) [OF k] by simp
  show "filter success (attempts Share (new_records db db')) = []
           \<longrightarrow> friend_shares db' = friend_shares db"
    unfolding dec using e(6) by blast
  show "\<forall>e\<in>set (attempts Share (new_records db db')).
           \<exists>f\<in>set (friends eng). friend_username e = Some (friend_name f)
              \<and> get_friend_share_count_today db today (friend_name f) < friend_max_shares_per_day f"
    unfolding dec
  proof
    fix x assume "x \<in> set S"
    then have "friend_username x \<in> set (map friend_username S)" by simp
    then have "friend_username x \<in> set (map (\<lambda>f. Some (friend_name f))
              (take (length S) (eligible_friends eng today category db)))"
      using e(5) by simp
    then obtain f where f: "f \<in> set (take (length S) (eligible_friends eng today category db))"
      "friend_username x = Some (friend_name f)" by auto
    from f(1) have "f \<in> set (eligible_friends eng today category db)" by (rule in_set_takeD)
    then have "f \<in> set (friends eng)" "can_share_to_friend today db f"
      by (auto simp: eligible_friends_def find_matching_friends_def)
    with f(2) show "\<exists>f\<in>set (friends eng). friend_username x = Some (friend_name f)
              \<and> get_friend_share_count_today db today (friend_name f) < friend_max_shares_per_day f"
      by (auto simp: can_share_to_friend_def)
  qed
  show "within_friend_caps (friends eng) db'"
  proof (cases "friend_shares db' = friend_shares db")
    case True
    with caps show ?thesis by (simp add: within_friend_caps_def)
  next
    case False
    with e(6) obtain f where f: "f \<in> set (friends eng)" "can_share_to_friend today db f"
      "friend_shares db' = (friend_shares db)((friend_name f, today) \<mapsto>
                   get_friend_share_count_today db today (friend_name f) + 1)" by blast
    show ?thesis
      unfolding within_friend_caps_def
    proof (intro allI impI)
      fix name dd c
      assume a: "name \<in> set (map friend_name (friends eng))
                 \<and> friend_shares db' (name, dd) = Some c"
      show "\<exists>g\<in>set (friends eng). friend_name g = name \<and> c \<le> friend_max_shares_per_day g"
      proof (cases "name = friend_name f \<and> dd = today")
        case True
        with a f(3) have "c = get_friend_share_count_today db today (friend_name f) + 1" by simp
        with f(2) have "c \<le> friend_max_shares_per_day f" by (simp add: can_share_to_friend_def)
        with f(1) True show ?thesis by blast
      next
        case False
        with a f(3) have "friend_shares db (name, dd) = Some c" by (auto split: if_splits)
        with a caps show ?thesis by (simp add: within_friend_caps_def)
      qed
    qed
  qed
qed


lemma session_loop_within_daily_caps:
  "within_daily_caps eng db \<Longrightarrow> \<forall>it\<in>set feed. clock_utc it = clock_today it \<Longrightarrow>
   within_daily_caps eng (fst (session_loop eng ao cfg feed n k db))"
proof (induction feed arbitrary: n k db)
  case Nil
  then show ?case by simp
next
  case (Cons it rest)
  from Cons.prems(2) have same: "clock_utc it = clock_today it"
    and rest: "\<forall>it\<in>set rest. clock_utc it = clock_today it" by simp_all
  show ?case
  proof (cases "stop_now it \<or> n \<ge> max_reels_per_session cfg")
    case True
    with Cons.prems show ?thesis by auto
  next
    case False
    note go = this
    show ?thesis
    proof (cases "reel_already_analyzed db (pk it) \<or> download it = None")
      case True
      with go show ?thesis using Cons.IH [OF Cons.prems(1) rest, of n k]
        by (auto split: prod.splits)
    next
      case False
      then obtain v where v: "download it = Some v" by auto
      obtain d2 k2 ev2 where r: "process_reel eng ao cfg it v k db = (d2, k2, ev2)"
        by (cases "process_reel eng ao cfg it v k db") auto
      have c2: "within_daily_caps eng d2"
      proof (cases ao)
        case True
        with process_reel_tables(1) [OF r] Cons.prems show ?thesis
          using within_daily_caps_cong [of d2 db eng] by simp
      next
        case False
        from process_reel_tables(2) [OF r False] obtain actions db1 calls where
          p: "process_engagement eng (clock_today it) (clock_utc it) (pk it)
             (a_humor_score (analyze_reel v))
             (a_humor_category (analyze_reel v)) (a_suggested_comment (analyze_reel v))
             (item_code it) db = (actions, db1, calls)"
          and t: "engagement_log d2 = engagement_log db1"
          by blast
        from within_daily_caps_step(1) [OF Cons.prems(1) p [unfolded same]]
        show ?thesis using within_daily_caps_cong [OF t, of eng] by simp
      qed
      have "fst (session_loop eng ao cfg (it # rest) n k db)
              = fst (session_loop eng ao cfg rest (n + 1) k2 d2)"
        using go False v r by (simp split: prod.splits)
      with Cons.IH [OF c2 rest, of "n + 1" k2] show ?thesis by simp
    qed
  qed
qed

lemma session_loop_within_friend_caps:
  "within_friend_caps (friends eng) db \<Longrightarrow>
   within_friend_caps (friends eng) (fst (session_loop eng ao cfg feed n k db))"
proof (induction feed arbitrary: n k db)
  case Nil
  then show ?case by simp
next
  case (Cons it rest)
  show ?case
  proof (cases "stop_now it \<or> n \<ge> max_reels_per_session cfg")
    case True
    with Cons.prems show ?thesis by auto
  next
    case False
    note go = this
    show ?thesis
    proof (cases "reel_already_analyzed db (pk it) \<or> download it = None")
      case True
      with go show ?thesis using Cons.IH [OF Cons.prems, of n k]
        by (auto split: prod.splits)
    next
      case False
      then obtain v where v: "download it = Some v" by auto
      obtain d2 k2 ev2 where r: "process_reel eng ao cfg it v k db = (d2, k2, ev2)"
        by (cases "process_reel eng ao cfg it v k db") auto
      have c2: "within_friend_caps (friends eng) d2"
      proof (cases ao)
        case True
        with process_reel_tables(1) [OF r] Cons.prems show ?thesis
          using within_friend_caps_cong [of d2 db "friends eng"] by simp
      next
        case False
        from process_reel_tables(2) [OF r False] obtain actions db1 calls where
          p: "process_engagement eng (clock_today it) (clock_utc it) (pk it) (a_humor_score (analyze_reel v))
             (a_humor_category (analyze_reel v)) (a_suggested_comment (analyze_reel v))
             (item_code it) db = (actions, db1, calls)"
          and t: "friend_shares d2 = friend_shares db1"
          by blast
        from within_friend_caps_step(1) [OF Cons.prems p]
        show ?thesis using within_friend_caps_cong [OF t, of "friends eng"] by simp
      qed
      have "fst (session_loop eng ao cfg (it # rest) n k db)
              = fst (session_loop eng ao cfg rest (n + 1) k2 d2)"
        using go False v r by (simp split: prod.splits)
      with Cons.IH [OF c2, of "n + 1" k2] show ?thesis by simp
    qed
  qed
qed

text \<open>
  C2. For every day and every action kind the number of successful rows of that kind on that
  day should never exceed the kind's daily cap. The code counts the rows whose UTC date is the
  local date of the check, and so misses the rows it has just written whenever the two dates
  differ: on a host whose local date is one day behind UTC, with a daily like cap of 1, a
  session over two reels that deserve a like performs both likes, and the day they are
  stamped with has two successful likes.
\<close>

theorem quota_ceiling_failing_input:
  "cfg_max_likes_per_day cfg_one_like = 1
   \<and> count_today (fst (run_session cfg_one_like True False ig_ok [] True
                         [evening_item ''r1'', evening_item ''r2''] empty_db))
        Like ''2024-05-02'' = 2"
  by code_simp

text \<open>
  Where the two clocks agree the ceiling holds: the invariant is kept by a pass and by the
  session loop, a row of a kind is written only when the count of that kind today was strictly
  below the cap, and only successful rows count.
\<close>

lemma quota_ceiling_same_date:
  assumes "within_daily_caps eng db"
    and "process_engagement eng today today rid score category txt rcode db
           = (actions, db', calls)"
  shows "within_daily_caps eng db'
    \<and> (\<forall>kind. attempts kind (new_records db db') \<noteq> []
           \<longrightarrow> count_today db kind today < daily_cap eng kind)
    \<and> (\<forall>kind d. count_today db' kind d = count_today db kind d
           + int (length (filter (\<lambda>e. timestamp e = d \<and> success e)
                                 (attempts kind (new_records db db')))))
    \<and> ((\<forall>it\<in>set feed. clock_utc it = clock_today it)
         \<longrightarrow> within_daily_caps eng (fst (session_loop eng ao cfg feed n k db)))"
  using within_daily_caps_step [OF assms] session_loop_within_daily_caps [OF assms(1)] by blast

text \<open>
  C3. If no counter row exceeds the max-shares-per-day configured for its recipient, none does
  after a decision pass, and after any run of the session loop; where the directory names each
  recipient once, no row of a recipient exceeds that recipient's cap. Every share row of a
  pass goes to a recipient whose count for today was strictly below their cap, and when no
  share of the pass succeeded (every attempt returned failure or raised) the counters are
  unchanged.
\<close>

theorem recipient_ceiling:
  assumes "within_friend_caps (friends eng) db"
    and "process_engagement eng today utc rid score category txt rcode db = (actions, db', calls)"
  shows "within_friend_caps (friends eng) db'
    \<and> (distinct (map friend_name (friends eng)) \<longrightarrow>
         (\<forall>f\<in>set (friends eng). \<forall>d c. friend_shares db' (friend_name f, d) = Some c
             \<longrightarrow> c \<le> friend_max_shares_per_day f))
    \<and> (\<forall>e\<in>set (attempts Share (new_records db db')).
           \<exists>f\<in>set (friends eng). friend_username e = Some (friend_name f)
              \<and> get_friend_share_count_today db today (friend_name f) < friend_max_shares_per_day f)
    \<and> (filter success (attempts Share (new_records db db')) = []
           \<longrightarrow> friend_shares db' = friend_shares db)
    \<and> within_friend_caps (friends eng) (fst (session_loop eng ao cfg feed n k db))"
proof -
  note s = within_friend_caps_step [OF assms]
  have "distinct (map friend_name (friends eng)) \<longrightarrow>
         (\<forall>f\<in>set (friends eng). \<forall>d c. friend_shares db' (friend_name f, d) = Some c
             \<longrightarrow> c \<le> friend_max_shares_per_day f)"
    using within_friend_caps_distinct [OF _ s(1)] by blast
  with s session_loop_within_friend_caps [OF assms(1)] show ?thesis by blast
qed

theorem recipient_ceiling_witness:
  "within_friend_caps (friends (eng0 ig_ok True)) empty_db
   \<and> distinct (map friend_name (friends (eng0 ig_ok True)))
   \<and> within_friend_caps (friends (eng0 ig_ok True)) (fst (snd
        (process_engagement (eng0 ig_ok True) ''2024-05-01'' ''2024-05-01'' ''r1'' 9 ''cute_animals'' (PyStr ''lol'')
           ''C'' empty_db)))"
proof -
  let ?r = "process_engagement (eng0 ig_ok True) ''2024-05-01'' ''2024-05-01'' ''r1'' 9 ''cute_animals'' (PyStr ''lol'')
              ''C'' empty_db"
  have h: "?r = (fst ?r, fst (snd ?r), snd (snd ?r))" by simp
  have d: "distinct (map friend_name (friends (eng0 ig_ok True)))"
    by (simp add: eng0_def Engager_def ann_def bob_def FriendProfile_def)
  have c: "within_friend_caps (friends (eng0 ig_ok True)) empty_db"
    by (simp add: within_friend_caps_def empty_db_def)
  from recipient_ceiling [OF c h] d c show ?thesis by blast
qed

end
